theory Spec2Isabelle
  imports Main "HOL-Library.Word"
begin

unbundle bit_operations_syntax

section \<open>Machine integers and status codes\<close>

type_synonym u8 = "8 word"
type_synonym u32 = "32 word"
type_synonym u64 = "64 word"

text \<open>
  The status codes of \<^verbatim>\<open>sdio_status_t\<close> that the two source files return or
  compare against. The enumeration itself is declared in \<^verbatim>\<open>rp2040_sdio.h\<close>; only the
  constructors named in the sources are listed.
\<close>

datatype sdio_status_t =
    SDIO_OK
  | SDIO_BUSY
  | SDIO_ERR_RESPONSE_TIMEOUT
  | SDIO_ERR_RESPONSE_CRC
  | SDIO_ERR_RESPONSE_CODE
  | SDIO_ERR_DATA_TIMEOUT
  | SDIO_ERR_DATA_CRC

datatype sdio_transfer_state_t = SDIO_IDLE | SDIO_RX | SDIO_TX

text \<open>
  Ways in which a call can leave the defined behaviour of the C program: a failed
  \<^verbatim>\<open>assert\<close> (in a build without \<^verbatim>\<open>NDEBUG\<close>) and an access to
  \<^verbatim>\<open>block_checksums\<close> outside its \<^verbatim>\<open>SDIO_MAX_BLOCKS\<close> entries.
\<close>

datatype fault = AssertionFailed | OutOfBounds

definition SDIO_MAX_BLOCKS :: nat where
  "SDIO_MAX_BLOCKS = 256"

text \<open>
  \<^verbatim>\<open>assert(cond)\<close>: with \<^verbatim>\<open>NDEBUG\<close> defined the macro expands to nothing, otherwise a false
  condition aborts. The build flag is a parameter of every function that asserts.
\<close>

definition assert_passes :: "bool \<Rightarrow> bool \<Rightarrow> bool" where
  "assert_passes ndebug cond = (ndebug \<or> cond)"

section \<open>Checksum algorithms\<close>

definition crc7_table :: "u8 list" where
  "crc7_table = [
    0x00, 0x12, 0x24, 0x36, 0x48, 0x5A, 0x6C, 0x7E, 0x90, 0x82, 0xB4, 0xA6, 0xD8, 0xCA, 0xFC, 0xEE,
    0x32, 0x20, 0x16, 0x04, 0x7A, 0x68, 0x5E, 0x4C, 0xA2, 0xB0, 0x86, 0x94, 0xEA, 0xF8, 0xCE, 0xDC,
    0x64, 0x76, 0x40, 0x52, 0x2C, 0x3E, 0x08, 0x1A, 0xF4, 0xE6, 0xD0, 0xC2, 0xBC, 0xAE, 0x98, 0x8A,
    0x56, 0x44, 0x72, 0x60, 0x1E, 0x0C, 0x3A, 0x28, 0xC6, 0xD4, 0xE2, 0xF0, 0x8E, 0x9C, 0xAA, 0xB8,
    0xC8, 0xDA, 0xEC, 0xFE, 0x80, 0x92, 0xA4, 0xB6, 0x58, 0x4A, 0x7C, 0x6E, 0x10, 0x02, 0x34, 0x26,
    0xFA, 0xE8, 0xDE, 0xCC, 0xB2, 0xA0, 0x96, 0x84, 0x6A, 0x78, 0x4E, 0x5C, 0x22, 0x30, 0x06, 0x14,
    0xAC, 0xBE, 0x88, 0x9A, 0xE4, 0xF6, 0xC0, 0xD2, 0x3C, 0x2E, 0x18, 0x0A, 0x74, 0x66, 0x50, 0x42,
    0x9E, 0x8C, 0xBA, 0xA8, 0xD6, 0xC4, 0xF2, 0xE0, 0x0E, 0x1C, 0x2A, 0x38, 0x46, 0x54, 0x62, 0x70,
    0x82, 0x90, 0xA6, 0xB4, 0xCA, 0xD8, 0xEE, 0xFC, 0x12, 0x00, 0x36, 0x24, 0x5A, 0x48, 0x7E, 0x6C,
    0xB0, 0xA2, 0x94, 0x86, 0xF8, 0xEA, 0xDC, 0xCE, 0x20, 0x32, 0x04, 0x16, 0x68, 0x7A, 0x4C, 0x5E,
    0xE6, 0xF4, 0xC2, 0xD0, 0xAE, 0xBC, 0x8A, 0x98, 0x76, 0x64, 0x52, 0x40, 0x3E, 0x2C, 0x1A, 0x08,
    0xD4, 0xC6, 0xF0, 0xE2, 0x9C, 0x8E, 0xB8, 0xAA, 0x44, 0x56, 0x60, 0x72, 0x0C, 0x1E, 0x28, 0x3A,
    0x4A, 0x58, 0x6E, 0x7C, 0x02, 0x10, 0x26, 0x34, 0xDA, 0xC8, 0xFE, 0xEC, 0x92, 0x80, 0xB6, 0xA4,
    0x78, 0x6A, 0x5C, 0x4E, 0x30, 0x22, 0x14, 0x06, 0xE8, 0xFA, 0xCC, 0xDE, 0xA0, 0xB2, 0x84, 0x96,
    0x2E, 0x3C, 0x0A, 0x18, 0x66, 0x74, 0x42, 0x50, 0xBE, 0xAC, 0x9A, 0x88, 0xF6, 0xE4, 0xD2, 0xC0,
    0x1C, 0x0E, 0x38, 0x2A, 0x54, 0x46, 0x70, 0x62, 0x8C, 0x9E, 0xA8, 0xBA, 0xC4, 0xD6, 0xE0, 0xF2]"

text \<open>One table step, \<^verbatim>\<open>crc = crc7_table[crc ^ byte]\<close>.\<close>

definition crc7_update :: "u8 \<Rightarrow> u8 \<Rightarrow> u8" where
  "crc7_update crc byte = crc7_table ! unat (crc XOR byte)"

text \<open>
  \<^verbatim>\<open>__builtin_bswap32\<close> is a compiler builtin: it reverses the four bytes of a 32-bit word.
\<close>

definition bswap32 :: "u32 \<Rightarrow> u32" where
  "bswap32 x =
     push_bit 24 (take_bit 8 x) OR push_bit 16 (take_bit 8 (drop_bit 8 x))
       OR push_bit 8 (take_bit 8 (drop_bit 16 x)) OR drop_bit 24 x"

text \<open>The body of the \<^verbatim>\<open>while\<close> loop of \<^verbatim>\<open>sdio_crc16_4bit_checksum\<close> for one input word.\<close>

definition crc16_step :: "u64 \<Rightarrow> u32 \<Rightarrow> u64" where
  "crc16_step crc w =
     (let data_in = bswap32 w;
          data_out0 = (ucast (drop_bit 32 crc) :: u32);
          crc1 = push_bit 32 crc;
          data_out1 = data_out0 XOR drop_bit 16 data_out0;
          data_out2 = data_out1 XOR drop_bit 16 data_in;
          xorred = (ucast (data_out2 XOR data_in) :: u64)
      in crc1 XOR xorred XOR push_bit 20 xorred XOR push_bit 48 xorred)"

fun crc16_loop :: "u64 \<Rightarrow> u32 list \<Rightarrow> u64" where
  "crc16_loop crc [] = crc"
| "crc16_loop crc (w # ws) = crc16_loop (crc16_step crc w) ws"

text \<open>
  \<^verbatim>\<open>sdio_crc16_4bit_checksum(data, num_words)\<close>; the argument is the list of the
  \<^verbatim>\<open>num_words\<close> words stored from \<^verbatim>\<open>data\<close> on.
\<close>

definition sdio_crc16_4bit_checksum :: "u32 list \<Rightarrow> u64" where
  "sdio_crc16_4bit_checksum data = crc16_loop 0 data"

text \<open>
  Memory is a map from the byte address of an aligned word to the word stored there;
  \<open>read_words mem p n\<close> are the \<open>n\<close> words from address \<open>p\<close> on.
\<close>

definition read_words :: "(u32 \<Rightarrow> u32) \<Rightarrow> u32 \<Rightarrow> nat \<Rightarrow> u32 list" where
  "read_words mem p n = map (\<lambda>k. mem (p + 4 * of_nat k)) [0..<n]"

section \<open>Basic SDIO command execution\<close>

text \<open>
  \<^verbatim>\<open>sdio_send_command(command, arg, response_bits)\<close>: the two words that it puts into
  the FIFO of the command state machine.
\<close>

definition sdio_send_command :: "u8 \<Rightarrow> u32 \<Rightarrow> u8 \<Rightarrow> u32 \<times> u32" where
  "sdio_send_command command arg response_bits =
     (let word0 = push_bit 24 47 OR push_bit 22 1 OR push_bit 16 (ucast command)
                    OR push_bit 8 (drop_bit 24 arg AND 0xFF)
                    OR push_bit 0 (drop_bit 16 arg AND 0xFF);
          word1 = push_bit 24 (drop_bit 8 arg AND 0xFF)
                    OR push_bit 16 (drop_bit 0 arg AND 0xFF)
                    OR push_bit 8 1;
          word1 = (if response_bits \<noteq> 0
                   then word1 OR push_bit 0 (ucast (response_bits - 1)) else word1);
          crc = 0;
          crc = crc7_update crc (ucast (drop_bit 16 word0 AND 0xFF));
          crc = crc7_update crc (ucast (drop_bit 8 word0 AND 0xFF));
          crc = crc7_update crc (ucast (drop_bit 0 word0 AND 0xFF));
          crc = crc7_update crc (ucast (drop_bit 24 word1 AND 0xFF));
          crc = crc7_update crc (ucast (drop_bit 16 word1 AND 0xFF));
          word1 = word1 OR push_bit 8 (ucast crc)
      in (word0, word1))"

text \<open>
  The busy-wait of \<^verbatim>\<open>rp2040_sdio_command_R1\<close>. Each element of the list is what one turn
  of the loop observes: the receive FIFO level and the value of \<^verbatim>\<open>millis()\<close>. The result is
  \<open>Some True\<close> when enough words have arrived, \<open>Some False\<close> when the 2 ms budget is
  exceeded, and \<open>None\<close> when the loop is still running after the last observation.
\<close>

fun wait_response :: "u32 \<Rightarrow> u32 \<Rightarrow> (u32 \<times> u32) list \<Rightarrow> bool option" where
  "wait_response start wait_words [] = None"
| "wait_response start wait_words ((level, now) # rest) =
     (if level < wait_words
      then (if now - start > 2 then Some False else wait_response start wait_words rest)
      else Some True)"

text \<open>The CRC7 that \<^verbatim>\<open>rp2040_sdio_command_R1\<close> computes over the five received bytes.\<close>

definition R1_response_crc :: "u32 \<Rightarrow> u32 \<Rightarrow> u8" where
  "R1_response_crc resp0 resp1 =
     (let crc = 0;
          crc = crc7_update crc (ucast (drop_bit 24 resp0 AND 0xFF));
          crc = crc7_update crc (ucast (drop_bit 16 resp0 AND 0xFF));
          crc = crc7_update crc (ucast (drop_bit 8 resp0 AND 0xFF));
          crc = crc7_update crc (ucast (drop_bit 0 resp0 AND 0xFF));
          crc = crc7_update crc (ucast (drop_bit 8 resp1 AND 0xFF))
      in crc)"

text \<open>
  \<^verbatim>\<open>rp2040_sdio_command_R1(command, arg, response)\<close>. \<open>want_response\<close> says whether the
  \<^verbatim>\<open>response\<close> pointer is non-null, \<open>start\<close> is \<^verbatim>\<open>millis()\<close> at the start of the wait,
  \<open>polls\<close> the observations of the wait loop, \<open>resp0\<close> and \<open>resp1\<close> the two words
  read from the command state machine. The result is the status and, when the function
  stores to \<^verbatim>\<open>*response\<close>, the stored value. The frame that the function sends first is
  \<open>sdio_send_command command arg (if want_response then 48 else 0)\<close>; it has no part in
  the result.
\<close>

definition rp2040_sdio_command_R1 ::
  "u8 \<Rightarrow> u32 \<Rightarrow> bool \<Rightarrow> u32 \<Rightarrow> (u32 \<times> u32) list \<Rightarrow> u32 \<Rightarrow> u32
     \<Rightarrow> (sdio_status_t \<times> u32 option) option" where
  "rp2040_sdio_command_R1 command arg want_response start polls resp0 resp1 =
     (case wait_response start (if want_response then 2 else 1) polls of
        None \<Rightarrow> None
      | Some False \<Rightarrow> Some (SDIO_ERR_RESPONSE_TIMEOUT, None)
      | Some True \<Rightarrow>
          if want_response then
            (let crc = R1_response_crc resp0 resp1;
                 actual_crc = (ucast (drop_bit 0 resp1 AND 0xFE) :: u8)
             in if crc \<noteq> actual_crc then Some (SDIO_ERR_RESPONSE_CRC, None)
                else
                  (let response_cmd = (ucast (drop_bit 24 resp0 AND 0xFF) :: u8)
                   in if response_cmd \<noteq> command \<and> command \<noteq> 41
                      then Some (SDIO_ERR_RESPONSE_CODE, None)
                      else Some (SDIO_OK,
                        Some (push_bit 8 (resp0 AND 0xFFFFFF) OR (drop_bit 8 resp1 AND 0xFF)))))
          else Some (SDIO_OK, None))"

section \<open>The transfer session and the hardware it drives\<close>

datatype log_msg =
    LogRxChecksumError u64 u64
  | LogRxIrqCrcTimeout
  | LogTxIrqFifoTimeout
  | DbgRxPollTimeout
  | DbgTxPollTimeout

text \<open>
  The first nine fields are those of \<^verbatim>\<open>g_sdio\<close> that the transfer functions use (the PIO
  program offsets and configurations are left out). The others record what the code
  has done to the hardware of the data path:
  \<^item> \<open>dma_busy\<close>: channel \<^verbatim>\<open>SDIO_DMA_CH\<close> has been started and not aborted or completed,
    and \<open>dma_addr\<close> is the address it was last started at;
  \<^item> \<open>dma_irq_flag\<close>: the completion flag of the channel, which the poll functions read
    in \<^verbatim>\<open>dma_hw->ints0\<close> and the handlers acknowledge by writing \<^verbatim>\<open>dma_hw->ints1\<close>;
  \<^item> \<open>data_sm_enabled\<close>: the data state machine \<^verbatim>\<open>SDIO_DATA_SM\<close> is enabled;
  \<^item> \<open>data_pins_out\<close>: the pins D0..D3 are driven as outputs;
  \<^item> \<open>tx_fifo\<close>: the words put into the transmit FIFO of the data state machine since
    it was last initialised;
  \<^item> \<open>msgs\<close>: the messages passed to \<^verbatim>\<open>azlog\<close> and \<^verbatim>\<open>azdbg\<close>.
\<close>

record sdio =
  transfer_state :: sdio_transfer_state_t
  inside_irq_handler :: bool
  transfer_start_time :: u32
  data_buf :: u32
  blocks_done :: u32
  total_blocks :: u32
  blocks_checksumed :: u32
  checksum_errors :: u32
  block_checksums :: "u64 list"
  dma_busy :: bool
  dma_addr :: u32
  dma_irq_flag :: bool
  data_sm_enabled :: bool
  data_pins_out :: bool
  tx_fifo :: "u32 list"
  msgs :: "log_msg list"

text \<open>
  What one call reads from its environment: \<^verbatim>\<open>millis()\<close>, the masked register
  \<^verbatim>\<open>SCB->ICSR & SCB_ICSR_VECTACTIVE_Msk\<close>, the successive FIFO levels seen by the bounded
  wait of a completion handler, the two words that \<^verbatim>\<open>pio_sm_get\<close> returns there, and the
  contents of memory.
\<close>

record env =
  millis :: u32
  icsr_vectactive :: u32
  fifo_level :: "nat \<Rightarrow> u32"
  fifo_crc0 :: u32
  fifo_crc1 :: u32
  mem :: "u32 \<Rightarrow> u32"

text \<open>
  The bounded wait of both completion handlers,
  \<^verbatim>\<open>while (level() < need) { if (maxwait-- < 0) { log; break; } }\<close>:
  \<open>True\<close> when the level was reached, \<open>False\<close> when the wait gave up.
\<close>

function fifo_wait :: "(nat \<Rightarrow> u32) \<Rightarrow> u32 \<Rightarrow> nat \<Rightarrow> int \<Rightarrow> bool" where
  "fifo_wait level need k maxwait =
     (if level k < need
      then (if maxwait < 0 then False else fifo_wait level need (Suc k) (maxwait - 1))
      else True)"
  by pat_completeness auto
termination
  by (relation "measure (\<lambda>(level, need, k, maxwait). nat (maxwait + 1))") auto

declare fifo_wait.simps [simp del]

subsection \<open>Data reception from SD card\<close>

definition sdio_start_next_block_rx :: "bool \<Rightarrow> sdio \<Rightarrow> fault + sdio" where
  "sdio_start_next_block_rx ndebug s =
     (if \<not> assert_passes ndebug (blocks_done s < total_blocks s) then Inl AssertionFailed
      else Inr (s\<lparr>dma_busy := True,
                  dma_addr := data_buf s + 4 * (128 * blocks_done s),
                  data_sm_enabled := True\<rparr>))"

function sdio_verify_rx_checksums :: "(u32 \<Rightarrow> u32) \<Rightarrow> u32 \<Rightarrow> sdio \<Rightarrow> fault + sdio" where
  "sdio_verify_rx_checksums m maxcount s =
     (if blocks_checksumed s < blocks_done s \<and> maxcount > 0 then
        (let blockidx = blocks_checksumed s;
             s1 = s\<lparr>blocks_checksumed := blocks_checksumed s + 1\<rparr>
         in if SDIO_MAX_BLOCKS \<le> unat blockidx then Inl OutOfBounds
            else
              (let checksum = sdio_crc16_4bit_checksum
                                (read_words m (data_buf s1 + 4 * (blockidx * 128)) 128);
                   expected = block_checksums s1 ! unat blockidx;
                   s2 = (if checksum \<noteq> expected
                         then (let s' = s1\<lparr>checksum_errors := checksum_errors s1 + 1\<rparr>
                               in if checksum_errors s' = 1
                                  then s'\<lparr>msgs := msgs s' @ [LogRxChecksumError checksum expected]\<rparr>
                                  else s')
                         else s1)
               in sdio_verify_rx_checksums m (maxcount - 1) s2))
      else Inr s)"
  by pat_completeness auto
termination
  by (relation "measure (\<lambda>(m, maxcount, s). unat maxcount)")
     (auto simp add: unat_minus_one word_greater_zero_iff unat_gt_0)

declare sdio_verify_rx_checksums.simps [simp del]

definition rp2040_sdio_rx_irq :: "bool \<Rightarrow> env \<Rightarrow> sdio \<Rightarrow> fault + sdio" where
  "rp2040_sdio_rx_irq ndebug e s =
     (let s0 = s\<lparr>dma_irq_flag := False\<rparr>;
          s1 = (if fifo_wait (fifo_level e) 2 0 1000 then s0
                else s0\<lparr>msgs := msgs s0 @ [LogRxIrqCrcTimeout]\<rparr>)
      in if SDIO_MAX_BLOCKS \<le> unat (blocks_done s1) then Inl OutOfBounds
         else
           (let s2 = s1\<lparr>block_checksums := (block_checksums s1)
                           [unat (blocks_done s1) :=
                              push_bit 32 (ucast (fifo_crc0 e)) OR ucast (fifo_crc1 e)],
                         blocks_done := blocks_done s1 + 1\<rparr>
            in if blocks_done s2 < total_blocks s2
               then sdio_start_next_block_rx ndebug s2
               else Inr (s2\<lparr>transfer_state := SDIO_IDLE\<rparr>)))"

definition rp2040_sdio_rx_start ::
  "bool \<Rightarrow> u32 \<Rightarrow> u32 \<Rightarrow> env \<Rightarrow> sdio \<Rightarrow> fault + (sdio_status_t \<times> sdio)" where
  "rp2040_sdio_rx_start ndebug buffer num_blocks e s =
     (if \<not> assert_passes ndebug (buffer AND 3 = 0 \<and> unat num_blocks \<le> SDIO_MAX_BLOCKS)
      then Inl AssertionFailed
      else
        (let s1 = s\<lparr>transfer_state := SDIO_RX,
                     transfer_start_time := millis e,
                     data_buf := buffer,
                     blocks_done := 0,
                     total_blocks := num_blocks,
                     blocks_checksumed := 0,
                     checksum_errors := 0,
                     inside_irq_handler := (icsr_vectactive e \<noteq> 0),
                     data_sm_enabled := False,
                     tx_fifo := [],
                     data_pins_out := False\<rparr>
         in case sdio_start_next_block_rx ndebug s1 of
              Inl f \<Rightarrow> Inl f
            | Inr s2 \<Rightarrow> Inr (SDIO_OK, s2)))"

subsection \<open>Forcing everything to idle\<close>

definition rp2040_sdio_stop :: "sdio \<Rightarrow> sdio_status_t \<times> sdio" where
  "rp2040_sdio_stop s =
     (SDIO_OK, s\<lparr>dma_busy := False,
                  data_sm_enabled := False,
                  data_pins_out := False,
                  transfer_state := SDIO_IDLE\<rparr>)"

text \<open>
  \<^verbatim>\<open>rp2040_sdio_rx_poll(bytes_complete)\<close>. \<open>want_bytes\<close> says whether the pointer is
  non-null; the second component of the result is the value stored through it.
\<close>

definition rp2040_sdio_rx_poll ::
  "bool \<Rightarrow> bool \<Rightarrow> env \<Rightarrow> sdio \<Rightarrow> fault + (sdio_status_t \<times> u32 option \<times> sdio)" where
  "rp2040_sdio_rx_poll ndebug want_bytes e s =
     (case (if inside_irq_handler s \<and> dma_irq_flag s
            then rp2040_sdio_rx_irq ndebug e s else Inr s) of
        Inl f \<Rightarrow> Inl f
      | Inr s1 \<Rightarrow>
          (let bytes_complete = (if want_bytes then Some (blocks_done s1 * 512) else None)
           in if transfer_state s1 = SDIO_IDLE then
                (case sdio_verify_rx_checksums (mem e) (total_blocks s1) s1 of
                   Inl f \<Rightarrow> Inl f
                 | Inr s2 \<Rightarrow>
                     Inr (if checksum_errors s2 = 0 then SDIO_OK else SDIO_ERR_DATA_CRC,
                          bytes_complete, s2))
              else if millis e - transfer_start_time s1 > 1000 then
                Inr (SDIO_ERR_DATA_TIMEOUT, bytes_complete,
                     snd (rp2040_sdio_stop (s1\<lparr>msgs := msgs s1 @ [DbgRxPollTimeout]\<rparr>)))
              else
                (case sdio_verify_rx_checksums (mem e) 1 s1 of
                   Inl f \<Rightarrow> Inl f
                 | Inr s2 \<Rightarrow> Inr (SDIO_BUSY, bytes_complete, s2))))"

subsection \<open>Data transmission to SD card\<close>

definition sdio_start_next_block_tx :: "bool \<Rightarrow> sdio \<Rightarrow> fault + sdio" where
  "sdio_start_next_block_tx ndebug s =
     (if \<not> assert_passes ndebug
            (blocks_done s < total_blocks s \<and> blocks_checksumed s > blocks_done s)
      then Inl AssertionFailed
      else Inr (s\<lparr>dma_busy := True,
                  dma_addr := data_buf s + 4 * (128 * blocks_done s)\<rparr>))"

function sdio_compute_tx_checksums :: "(u32 \<Rightarrow> u32) \<Rightarrow> u32 \<Rightarrow> sdio \<Rightarrow> fault + sdio" where
  "sdio_compute_tx_checksums m maxcount s =
     (if blocks_checksumed s < blocks_done s \<and> maxcount > 0 then
        (let blockidx = blocks_checksumed s;
             s1 = s\<lparr>blocks_checksumed := blocks_checksumed s + 1\<rparr>
         in if SDIO_MAX_BLOCKS \<le> unat blockidx then Inl OutOfBounds
            else sdio_compute_tx_checksums m (maxcount - 1)
                   (s1\<lparr>block_checksums := (block_checksums s1)
                          [unat blockidx :=
                             sdio_crc16_4bit_checksum
                               (read_words m (data_buf s1 + 4 * (blockidx * 128)) 128)]\<rparr>))
      else Inr s)"
  by pat_completeness auto
termination
  by (relation "measure (\<lambda>(m, maxcount, s). unat maxcount)")
     (auto simp add: unat_minus_one word_greater_zero_iff unat_gt_0)

declare sdio_compute_tx_checksums.simps [simp del]

definition rp2040_sdio_tx_irq :: "bool \<Rightarrow> env \<Rightarrow> sdio \<Rightarrow> fault + sdio" where
  "rp2040_sdio_tx_irq ndebug e s =
     (let s1 = (if fifo_wait (fifo_level e) 5 0 1000 then s
                else s\<lparr>msgs := msgs s @ [LogTxIrqFifoTimeout]\<rparr>)
      in if SDIO_MAX_BLOCKS \<le> unat (blocks_done s1) then Inl OutOfBounds
         else
           (let crc = block_checksums s1 ! unat (blocks_done s1);
                s2 = s1\<lparr>tx_fifo := tx_fifo s1 @
                             [ucast (drop_bit 32 crc), ucast (drop_bit 0 crc), 0xFFFFFFFF],
                         blocks_done := blocks_done s1 + 1\<rparr>
            in if blocks_done s2 < total_blocks s2
               then sdio_start_next_block_tx ndebug s2
               else Inr (s2\<lparr>transfer_state := SDIO_IDLE\<rparr>)))"

definition rp2040_sdio_tx_start ::
  "bool \<Rightarrow> u32 \<Rightarrow> u32 \<Rightarrow> env \<Rightarrow> sdio \<Rightarrow> fault + (sdio_status_t \<times> sdio)" where
  "rp2040_sdio_tx_start ndebug buffer num_blocks e s =
     (if \<not> assert_passes ndebug (buffer AND 3 = 0 \<and> unat num_blocks \<le> SDIO_MAX_BLOCKS)
      then Inl AssertionFailed
      else
        (let s1 = s\<lparr>transfer_state := SDIO_TX,
                     transfer_start_time := millis e,
                     data_buf := buffer,
                     blocks_done := 0,
                     total_blocks := num_blocks,
                     blocks_checksumed := 0,
                     checksum_errors := 0,
                     inside_irq_handler := (icsr_vectactive e \<noteq> 0)\<rparr>
         in case sdio_compute_tx_checksums (mem e) 1 s1 of
              Inl f \<Rightarrow> Inl f
            | Inr s2 \<Rightarrow>
                (let s3 = s2\<lparr>data_sm_enabled := False, tx_fifo := [], data_pins_out := True\<rparr>
                 in case sdio_start_next_block_tx ndebug s3 of
                      Inl f \<Rightarrow> Inl f
                    | Inr s4 \<Rightarrow>
                        (case sdio_compute_tx_checksums (mem e) (total_blocks s4)
                                (s4\<lparr>data_sm_enabled := True\<rparr>) of
                           Inl f \<Rightarrow> Inl f
                         | Inr s5 \<Rightarrow> Inr (SDIO_OK, s5)))))"

definition rp2040_sdio_tx_poll ::
  "bool \<Rightarrow> bool \<Rightarrow> env \<Rightarrow> sdio \<Rightarrow> fault + (sdio_status_t \<times> u32 option \<times> sdio)" where
  "rp2040_sdio_tx_poll ndebug want_bytes e s =
     (case (if inside_irq_handler s \<and> dma_irq_flag s
            then rp2040_sdio_tx_irq ndebug e s else Inr s) of
        Inl f \<Rightarrow> Inl f
      | Inr s1 \<Rightarrow>
          (let bytes_complete = (if want_bytes then Some (blocks_done s1 * 512) else None)
           in if transfer_state s1 = SDIO_IDLE then
                Inr (SDIO_OK, bytes_complete,
                     s1\<lparr>data_sm_enabled := False, data_pins_out := False\<rparr>)
              else if millis e - transfer_start_time s1 > 1000 then
                Inr (SDIO_ERR_DATA_TIMEOUT, bytes_complete,
                     snd (rp2040_sdio_stop (s1\<lparr>msgs := msgs s1 @ [DbgTxPollTimeout]\<rparr>)))
              else Inr (SDIO_BUSY, bytes_complete, s1)))"

subsection \<open>The DMA interrupt\<close>

definition rp2040_sdio_dma_irq :: "bool \<Rightarrow> env \<Rightarrow> sdio \<Rightarrow> fault + sdio" where
  "rp2040_sdio_dma_irq ndebug e s =
     (let s0 = s\<lparr>dma_irq_flag := False\<rparr>
      in if transfer_state s0 = SDIO_TX then rp2040_sdio_tx_irq ndebug e s0
         else if transfer_state s0 = SDIO_RX then rp2040_sdio_rx_irq ndebug e s0
         else Inr s0)"

text \<open>
  The part of \<^verbatim>\<open>rp2040_sdio_init\<close> that concerns the session: \<^verbatim>\<open>memset\<close> clears
  \<^verbatim>\<open>g_sdio\<close> and the pending completion flag is acknowledged. The data path of the
  hardware is taken in its state after reset.
\<close>

definition rp2040_sdio_init :: sdio where
  "rp2040_sdio_init =
     \<lparr>transfer_state = SDIO_IDLE, inside_irq_handler = False, transfer_start_time = 0,
      data_buf = 0, blocks_done = 0, total_blocks = 0, blocks_checksumed = 0,
      checksum_errors = 0, block_checksums = replicate SDIO_MAX_BLOCKS 0,
      dma_busy = False, dma_addr = 0, dma_irq_flag = False, data_sm_enabled = False,
      data_pins_out = False, tx_fifo = [], msgs = []\<rparr>"

section \<open>Sessions: DMA completions and poll calls\<close>

text \<open>
  The behaviour of the DMA channel, which the sources rely on: a transfer that has been
  started completes at some point; the channel then stops being busy and raises its
  completion flag. When the session was armed outside any exception handler the
  interrupt \<^verbatim>\<open>DMA_IRQ_1\<close> is taken at once and runs \<^verbatim>\<open>rp2040_sdio_dma_irq\<close>; when it was
  armed inside a handler no interrupt is delivered and the flag stays raised until the
  code acknowledges it. A channel that is not busy completes nothing.

  In \<open>session_run\<close> every call of a poll function runs as a whole. This fits the
  timelines in which no completion falls inside a call. A completion that falls
  inside a call of \<^verbatim>\<open>rp2040_sdio_rx_poll\<close> is followed in the next subsection, where the
  function runs one statement at a time.
\<close>

definition dma_complete :: "bool \<Rightarrow> env \<Rightarrow> sdio \<Rightarrow> fault + sdio" where
  "dma_complete ndebug e s =
     (if \<not> dma_busy s then Inr s
      else
        (let s1 = s\<lparr>dma_busy := False, dma_irq_flag := True\<rparr>
         in if inside_irq_handler s1 then Inr s1 else rp2040_sdio_dma_irq ndebug e s1))"

datatype event = DmaDone env | RxPoll bool env | TxPoll bool env

type_synonym poll_result = "sdio_status_t \<times> u32 option"

definition session_step ::
  "bool \<Rightarrow> event \<Rightarrow> sdio \<Rightarrow> fault + (poll_result option \<times> sdio)" where
  "session_step ndebug ev s =
     (case ev of
        DmaDone e \<Rightarrow>
          (case dma_complete ndebug e s of Inl f \<Rightarrow> Inl f | Inr s' \<Rightarrow> Inr (None, s'))
      | RxPoll want_bytes e \<Rightarrow>
          (case rp2040_sdio_rx_poll ndebug want_bytes e s of
             Inl f \<Rightarrow> Inl f
           | Inr (st, bytes, s') \<Rightarrow> Inr (Some (st, bytes), s'))
      | TxPoll want_bytes e \<Rightarrow>
          (case rp2040_sdio_tx_poll ndebug want_bytes e s of
             Inl f \<Rightarrow> Inl f
           | Inr (st, bytes, s') \<Rightarrow> Inr (Some (st, bytes), s')))"

text \<open>
  Running a list of events from a state gives, for each event, what the poll call
  returned (if the event was one) and the state after it.
\<close>

fun session_run ::
  "bool \<Rightarrow> event list \<Rightarrow> sdio \<Rightarrow> fault + (poll_result option \<times> sdio) list" where
  "session_run ndebug [] s = Inr []"
| "session_run ndebug (ev # evs) s =
     (case session_step ndebug ev s of
        Inl f \<Rightarrow> Inl f
      | Inr (r, s') \<Rightarrow>
          (case session_run ndebug evs s' of
             Inl f \<Rightarrow> Inl f
           | Inr tr \<Rightarrow> Inr ((r, s') # tr)))"

subsection \<open>A poll, statement by statement\<close>

text \<open>
  Nothing masks \<^verbatim>\<open>DMA_IRQ_1\<close> while \<^verbatim>\<open>rp2040_sdio_rx_poll\<close> runs, so in a session armed
  outside any handler the completion handler can run between any two statements of a
  poll; in a session armed inside a handler the channel can raise its flag there. To
  follow such runs the function is also given one statement at a time. A call in
  progress is at one of these places of the source:
  \<^item> \<open>At_dispatch\<close>: the test and the manual dispatch of lines 428 to 432;
  \<^item> \<open>At_store\<close>: the store through \<^verbatim>\<open>bytes_complete\<close>, lines 434 to 437;
  \<^item> \<open>At_state_test\<close>: the test of \<^verbatim>\<open>transfer_state\<close>, line 439;
  \<^item> \<open>At_verify_head\<close>, \<open>At_verify_body\<close>: the loop condition (line 345) and the loop body
    (lines 347 to 358) of \<^verbatim>\<open>sdio_verify_rx_checksums\<close>, with the current value of
    \<^verbatim>\<open>maxcount\<close>; the flag says whether the function was called from line 441 (the
    session was found idle) or from line 461;
  \<^item> \<open>At_errors_test\<close>: the test of \<^verbatim>\<open>checksum_errors\<close>, line 443;
  \<^item> \<open>At_time_test\<close>: the test of the elapsed time, line 448;
  \<^item> \<open>At_timeout_log\<close>: the call of \<^verbatim>\<open>azdbg\<close>, lines 450 to 454;
  \<^item> \<open>At_stop_abort\<close>, \<open>At_stop_sm\<close>, \<open>At_stop_pins\<close>, \<open>At_stop_idle\<close>: the four statements of
    \<^verbatim>\<open>rp2040_sdio_stop\<close>, lines 602 to 605, called from line 455.

  The loop body is one step: it reads only entries of the checksum table below
  \<^verbatim>\<open>blocks_done\<close>, which the handler does not write, and writes only counters that the
  handler does not read. The handler itself is one step: it cannot be interrupted by
  the poll, and the block it starts cannot complete before it returns.
\<close>

datatype rx_poll_pc =
    At_dispatch
  | At_store
  | At_state_test
  | At_verify_head bool u32
  | At_verify_body bool u32
  | At_errors_test
  | At_time_test
  | At_timeout_log
  | At_stop_abort
  | At_stop_sm
  | At_stop_pins
  | At_stop_idle

text \<open>
  A call in progress: where it is, whether \<^verbatim>\<open>bytes_complete\<close> is non-null, the value
  stored through it so far, and what the call reads from its environment.
\<close>

record rx_poll_call =
  call_pc :: rx_poll_pc
  call_want :: bool
  call_bytes :: "u32 option"
  call_env :: env

definition rx_poll_entry :: "bool \<Rightarrow> env \<Rightarrow> rx_poll_call" where
  "rx_poll_entry want_bytes e =
     \<lparr>call_pc = At_dispatch, call_want = want_bytes, call_bytes = None, call_env = e\<rparr>"

text \<open>The body of the loop of \<^verbatim>\<open>sdio_verify_rx_checksums\<close>, lines 347 to 358.\<close>

definition sdio_verify_rx_checksums_body :: "(u32 \<Rightarrow> u32) \<Rightarrow> sdio \<Rightarrow> fault + sdio" where
  "sdio_verify_rx_checksums_body m s =
     (let blockidx = blocks_checksumed s;
          s1 = s\<lparr>blocks_checksumed := blocks_checksumed s + 1\<rparr>
      in if SDIO_MAX_BLOCKS \<le> unat blockidx then Inl OutOfBounds
         else
           (let checksum = sdio_crc16_4bit_checksum
                             (read_words m (data_buf s1 + 4 * (blockidx * 128)) 128);
                expected = block_checksums s1 ! unat blockidx
            in Inr (if checksum \<noteq> expected
                    then (let s' = s1\<lparr>checksum_errors := checksum_errors s1 + 1\<rparr>
                          in if checksum_errors s' = 1
                             then s'\<lparr>msgs := msgs s' @ [LogRxChecksumError checksum expected]\<rparr>
                             else s')
                    else s1)))"

text \<open>
  One statement of \<^verbatim>\<open>rp2040_sdio_rx_poll\<close>: the call either goes on (\<open>Inl\<close>, with the call
  at its next place) or returns (\<open>Inr\<close>, with the status and the value stored through
  \<^verbatim>\<open>bytes_complete\<close>).
\<close>

definition rx_poll_step ::
  "bool \<Rightarrow> rx_poll_call \<Rightarrow> sdio \<Rightarrow> fault + ((rx_poll_call + poll_result) \<times> sdio)" where
  "rx_poll_step ndebug c s =
     (case call_pc c of
        At_dispatch \<Rightarrow>
          (case (if inside_irq_handler s \<and> dma_irq_flag s
                 then rp2040_sdio_rx_irq ndebug (call_env c) s else Inr s) of
             Inl f \<Rightarrow> Inl f
           | Inr s1 \<Rightarrow> Inr (Inl (c\<lparr>call_pc := At_store\<rparr>), s1))
      | At_store \<Rightarrow>
          Inr (Inl (c\<lparr>call_pc := At_state_test,
                      call_bytes := (if call_want c then Some (blocks_done s * 512)
                                     else call_bytes c)\<rparr>), s)
      | At_state_test \<Rightarrow>
          Inr (Inl (c\<lparr>call_pc := (if transfer_state s = SDIO_IDLE
                                   then At_verify_head True (total_blocks s)
                                   else At_time_test)\<rparr>), s)
      | At_verify_head idle maxcount \<Rightarrow>
          Inr (if blocks_checksumed s < blocks_done s \<and> maxcount > 0
               then Inl (c\<lparr>call_pc := At_verify_body idle (maxcount - 1)\<rparr>)
               else if idle then Inl (c\<lparr>call_pc := At_errors_test\<rparr>)
               else Inr (SDIO_BUSY, call_bytes c), s)
      | At_verify_body idle maxcount \<Rightarrow>
          (case sdio_verify_rx_checksums_body (mem (call_env c)) s of
             Inl f \<Rightarrow> Inl f
           | Inr s1 \<Rightarrow> Inr (Inl (c\<lparr>call_pc := At_verify_head idle maxcount\<rparr>), s1))
      | At_errors_test \<Rightarrow>
          Inr (Inr (if checksum_errors s = 0 then SDIO_OK else SDIO_ERR_DATA_CRC,
                    call_bytes c), s)
      | At_time_test \<Rightarrow>
          Inr (Inl (c\<lparr>call_pc := (if millis (call_env c) - transfer_start_time s > 1000
                                   then At_timeout_log
                                   else At_verify_head False 1)\<rparr>), s)
      | At_timeout_log \<Rightarrow>
          Inr (Inl (c\<lparr>call_pc := At_stop_abort\<rparr>), s\<lparr>msgs := msgs s @ [DbgRxPollTimeout]\<rparr>)
      | At_stop_abort \<Rightarrow> Inr (Inl (c\<lparr>call_pc := At_stop_sm\<rparr>), s\<lparr>dma_busy := False\<rparr>)
      | At_stop_sm \<Rightarrow> Inr (Inl (c\<lparr>call_pc := At_stop_pins\<rparr>), s\<lparr>data_sm_enabled := False\<rparr>)
      | At_stop_pins \<Rightarrow> Inr (Inl (c\<lparr>call_pc := At_stop_idle\<rparr>), s\<lparr>data_pins_out := False\<rparr>)
      | At_stop_idle \<Rightarrow>
          Inr (Inr (SDIO_ERR_DATA_TIMEOUT, call_bytes c), s\<lparr>transfer_state := SDIO_IDLE\<rparr>))"

text \<open>
  Running a call for at most \<open>k\<close> statements with nothing in between; \<open>None\<close> when it has
  not returned by then.
\<close>

fun rx_poll_exec ::
  "nat \<Rightarrow> bool \<Rightarrow> rx_poll_call \<Rightarrow> sdio \<Rightarrow> (fault + (sdio_status_t \<times> u32 option \<times> sdio)) option" where
  "rx_poll_exec 0 ndebug c s = None"
| "rx_poll_exec (Suc k) ndebug c s =
     (case rx_poll_step ndebug c s of
        Inl f \<Rightarrow> Some (Inl f)
      | Inr (Inl c', s') \<Rightarrow> rx_poll_exec k ndebug c' s'
      | Inr (Inr r, s') \<Rightarrow> Some (Inr (fst r, snd r, s')))"

text \<open>
  What can happen in a receive session: the DMA channel completes its transfer
  (\<open>dma_complete\<close>), \<^verbatim>\<open>rp2040_sdio_rx_poll\<close> is called, or the call in progress executes its
  next statement. The session is the state of the engine together with the call in
  progress, if any. The code that calls the poll function is sequential, so a call made
  while another is in progress does not happen, and neither does a statement without a
  call: such entries of a schedule are skipped.
\<close>

datatype rx_action = DmaCompletes env | PollCalled bool env | PollRuns

type_synonym rx_config = "sdio \<times> rx_poll_call option"

definition rx_action_step ::
  "bool \<Rightarrow> rx_action \<Rightarrow> rx_config \<Rightarrow> fault + (poll_result option \<times> rx_config)" where
  "rx_action_step ndebug a cfg =
     (case a of
        DmaCompletes e \<Rightarrow>
          (case dma_complete ndebug e (fst cfg) of
             Inl f \<Rightarrow> Inl f
           | Inr s' \<Rightarrow> Inr (None, (s', snd cfg)))
      | PollCalled want_bytes e \<Rightarrow>
          Inr (None, (fst cfg, (case snd cfg of
                                  None \<Rightarrow> Some (rx_poll_entry want_bytes e)
                                | Some c \<Rightarrow> Some c)))
      | PollRuns \<Rightarrow>
          (case snd cfg of
             None \<Rightarrow> Inr (None, cfg)
           | Some c \<Rightarrow>
               (case rx_poll_step ndebug c (fst cfg) of
                  Inl f \<Rightarrow> Inl f
                | Inr (Inl c', s') \<Rightarrow> Inr (None, (s', Some c'))
                | Inr (Inr r, s') \<Rightarrow> Inr (Some r, (s', None)))))"

fun rx_actions_run ::
  "bool \<Rightarrow> rx_action list \<Rightarrow> rx_config \<Rightarrow> fault + (poll_result option \<times> rx_config) list" where
  "rx_actions_run ndebug [] cfg = Inr []"
| "rx_actions_run ndebug (a # as) cfg =
     (case rx_action_step ndebug a cfg of
        Inl f \<Rightarrow> Inl f
      | Inr (r, cfg') \<Rightarrow>
          (case rx_actions_run ndebug as cfg' of
             Inl f \<Rightarrow> Inl f
           | Inr tr \<Rightarrow> Inr ((r, cfg') # tr)))"

section \<open>Card initialisation\<close>

text \<open>
  What the card answers during \<^verbatim>\<open>SdioCard::begin\<close>, command by command. A reply is the
  status returned by the command function, with the value it stores through its response
  pointer when that status is \<^verbatim>\<open>SDIO_OK\<close>.
  \<^item> \<open>cmd8_reply k\<close>: the reply to \<^verbatim>\<open>CMD8\<close> in attempt \<open>k\<close> (the status of the preceding
    \<^verbatim>\<open>CMD0\<close> is discarded by the code);
  \<^item> \<open>acmd41_start\<close>: \<^verbatim>\<open>millis()\<close> before the \<^verbatim>\<open>ACMD41\<close> loop;
  \<^item> \<open>acmd41_polls\<close>: for each turn of that loop the status of \<^verbatim>\<open>CMD55\<close>, the status of
    \<^verbatim>\<open>ACMD41\<close>, the OCR it stores and \<^verbatim>\<open>millis()\<close> at the timeout check;
  \<^item> the statuses of \<^verbatim>\<open>CMD2\<close>, \<^verbatim>\<open>CMD3\<close> (with the address), \<^verbatim>\<open>CMD7\<close>, \<^verbatim>\<open>CMD55\<close> and \<^verbatim>\<open>ACMD6\<close>.
\<close>

record card =
  cmd8_reply :: "nat \<Rightarrow> sdio_status_t \<times> u32"
  acmd41_start :: u32
  acmd41_polls :: "(sdio_status_t \<times> sdio_status_t \<times> u32 \<times> u32) list"
  cmd2_status :: sdio_status_t
  cmd3_reply :: "sdio_status_t \<times> u32"
  cmd7_status :: sdio_status_t
  cmd55_status :: sdio_status_t
  acmd6_status :: sdio_status_t

text \<open>
  The loop \<^verbatim>\<open>for (retries = 0; retries < 5; retries++)\<close>, entered with \<open>retries < 5\<close>:
  one attempt, then either the \<^verbatim>\<open>break\<close>, or the next attempt if one is left. The result
  is the pair of \<^verbatim>\<open>status\<close> and \<^verbatim>\<open>reply\<close> after the loop.
\<close>

function identify :: "(nat \<Rightarrow> sdio_status_t \<times> u32) \<Rightarrow> nat \<Rightarrow> sdio_status_t \<times> u32" where
  "identify reply8 retries =
     (let (status, payload) = reply8 retries;
          reply = (if status = SDIO_OK then payload else 0)
      in if status = SDIO_OK \<and> reply = 0x1AA then (status, reply)
         else if retries + 1 < 5 then identify reply8 (retries + 1)
         else (status, reply))"
  by pat_completeness auto
termination
  by (relation "measure (\<lambda>(reply8, retries). 5 - retries)") auto

declare identify.simps [simp del]

text \<open>
  The \<^verbatim>\<open>do ... while\<close> loop around \<^verbatim>\<open>CMD55\<close> and \<^verbatim>\<open>ACMD41\<close>: \<open>Some False\<close> is a
  \<^verbatim>\<open>return false\<close>, \<open>Some True\<close> leaving the loop with bit 31 of the OCR set, \<open>None\<close> a
  loop still running after the last recorded turn.
\<close>

fun acmd41_loop ::
  "u32 \<Rightarrow> (sdio_status_t \<times> sdio_status_t \<times> u32 \<times> u32) list \<Rightarrow> bool option" where
  "acmd41_loop start [] = None"
| "acmd41_loop start ((st55, st41, ocr, now) # rest) =
     (if st55 \<noteq> SDIO_OK \<or> st41 \<noteq> SDIO_OK then Some False
      else if now - start > 1000 then Some False
      else if ocr AND push_bit 31 1 = 0 then acmd41_loop start rest
      else Some True)"

definition SdioCard_begin :: "card \<Rightarrow> bool option" where
  "SdioCard_begin c =
     (let (status, reply) = identify (cmd8_reply c) 0
      in if reply \<noteq> 0x1AA \<or> status \<noteq> SDIO_OK then Some False
         else
           (case acmd41_loop (acmd41_start c) (acmd41_polls c) of
              None \<Rightarrow> None
            | Some False \<Rightarrow> Some False
            | Some True \<Rightarrow>
                if cmd2_status c \<noteq> SDIO_OK then Some False
                else if fst (cmd3_reply c) \<noteq> SDIO_OK then Some False
                else if cmd7_status c \<noteq> SDIO_OK then Some False
                else if cmd55_status c \<noteq> SDIO_OK \<or> acmd6_status c \<noteq> SDIO_OK then Some False
                else Some True))"

section \<open>Notions used to state the properties\<close>

text \<open>
  The five bytes of an R1 response that precede its CRC byte, in the order they arrive,
  the CRC7 of a byte sequence, and the CRC byte of the response.
\<close>

definition R1_response_bytes :: "u32 \<Rightarrow> u32 \<Rightarrow> u8 list" where
  "R1_response_bytes resp0 resp1 =
     [ucast (drop_bit 24 resp0), ucast (drop_bit 16 resp0), ucast (drop_bit 8 resp0),
      ucast resp0, ucast (drop_bit 8 resp1)]"

definition crc7 :: "u8 list \<Rightarrow> u8" where
  "crc7 bytes = foldl crc7_update 0 bytes"

definition R1_crc_byte :: "u32 \<Rightarrow> u8" where
  "R1_crc_byte resp1 = ucast resp1"

definition R1_payload :: "u32 \<Rightarrow> u32 \<Rightarrow> u32" where
  "R1_payload resp0 resp1 = push_bit 8 (take_bit 24 resp0) OR take_bit 8 (drop_bit 8 resp1)"

text \<open>
  For the card initialisation: a \<^verbatim>\<open>CMD8\<close> reply that ends the identification, a turn of
  the \<^verbatim>\<open>ACMD41\<close> loop that makes \<^verbatim>\<open>begin\<close> give up (a failed command, or more than
  1000 ms since the loop started), and a turn whose OCR has bit 31 set.
\<close>

definition cmd8_ok :: "sdio_status_t \<times> u32 \<Rightarrow> bool" where
  "cmd8_ok r = (fst r = SDIO_OK \<and> snd r = 0x1AA)"

definition turn_fails :: "u32 \<Rightarrow> sdio_status_t \<times> sdio_status_t \<times> u32 \<times> u32 \<Rightarrow> bool" where
  "turn_fails start t =
     (case t of (st55, st41, ocr, now) \<Rightarrow>
        st55 \<noteq> SDIO_OK \<or> st41 \<noteq> SDIO_OK \<or> now - start > 1000)"

definition turn_ready :: "sdio_status_t \<times> sdio_status_t \<times> u32 \<times> u32 \<Rightarrow> bool" where
  "turn_ready t = (case t of (st55, st41, ocr, now) \<Rightarrow> bit ocr 31)"

text \<open>
  For the verification of received blocks: the checksum computed over block \<open>i\<close> of the
  buffer, whether it differs from the entry recorded for the block, the blocks in a range
  that mismatch, the block index up to which a call \<^verbatim>\<open>sdio_verify_rx_checksums(maxcount)\<close>
  verifies, and the state after the blocks up to \<open>hi\<close> have been verified: counted, with
  only the first mismatch of the session logged.
\<close>

definition rx_block_crc :: "(u32 \<Rightarrow> u32) \<Rightarrow> sdio \<Rightarrow> nat \<Rightarrow> u64" where
  "rx_block_crc m s i =
     sdio_crc16_4bit_checksum (read_words m (data_buf s + 4 * (of_nat i * 128)) 128)"

definition rx_block_mismatch :: "(u32 \<Rightarrow> u32) \<Rightarrow> sdio \<Rightarrow> nat \<Rightarrow> bool" where
  "rx_block_mismatch m s i = (rx_block_crc m s i \<noteq> block_checksums s ! i)"

definition rx_mismatches :: "(u32 \<Rightarrow> u32) \<Rightarrow> sdio \<Rightarrow> nat \<Rightarrow> nat \<Rightarrow> nat list" where
  "rx_mismatches m s lo hi = filter (rx_block_mismatch m s) [lo..<hi]"

definition verify_upto :: "u32 \<Rightarrow> sdio \<Rightarrow> nat" where
  "verify_upto maxcount s =
     (if blocks_checksumed s < blocks_done s
      then min (unat (blocks_done s)) (unat (blocks_checksumed s) + unat maxcount)
      else unat (blocks_checksumed s))"

definition rx_verified :: "(u32 \<Rightarrow> u32) \<Rightarrow> nat \<Rightarrow> sdio \<Rightarrow> sdio" where
  "rx_verified m hi s =
     (let mm = rx_mismatches m s (unat (blocks_checksumed s)) hi
      in s\<lparr>blocks_checksumed := of_nat hi,
           checksum_errors := checksum_errors s + of_nat (length mm),
           msgs := msgs s @
             (if checksum_errors s = 0 \<and> mm \<noteq> []
              then [LogRxChecksumError (rx_block_crc m s (hd mm)) (block_checksums s ! hd mm)]
              else [])\<rparr>)"

text \<open>
  The state after the first statement of a poll function: in a session armed inside a
  handler, a raised completion flag makes the poll run the completion handler itself.
\<close>

definition rx_poll_dispatch :: "bool \<Rightarrow> env \<Rightarrow> sdio \<Rightarrow> fault + sdio" where
  "rx_poll_dispatch ndebug e s =
     (if inside_irq_handler s \<and> dma_irq_flag s then rp2040_sdio_rx_irq ndebug e s else Inr s)"

definition tx_poll_dispatch :: "bool \<Rightarrow> env \<Rightarrow> sdio \<Rightarrow> fault + sdio" where
  "tx_poll_dispatch ndebug e s =
     (if inside_irq_handler s \<and> dma_irq_flag s then rp2040_sdio_tx_irq ndebug e s else Inr s)"

text \<open>
  The value a poll stores through \<^verbatim>\<open>bytes_complete\<close>.
\<close>

definition bytes_done :: "bool \<Rightarrow> sdio \<Rightarrow> u32 option" where
  "bytes_done want_bytes s = (if want_bytes then Some (blocks_done s * 512) else None)"

text \<open>
  The states of a receive session of \<open>n\<close> blocks whose completions fall between its
  polls: the counters are ordered and bounded,
  the session is receiving or idle, it is receiving only while blocks remain, the DMA
  channel is busy only while it is receiving, and a completion flag is pending only in
  a receiving session that was armed inside a handler, with the channel at rest.
\<close>

definition rx_inv :: "nat \<Rightarrow> sdio \<Rightarrow> bool" where
  "rx_inv n s =
     (unat (total_blocks s) = n \<and> 1 \<le> n \<and> n \<le> SDIO_MAX_BLOCKS
      \<and> unat (blocks_done s) \<le> n
      \<and> unat (blocks_checksumed s) \<le> unat (blocks_done s)
      \<and> unat (checksum_errors s) \<le> unat (blocks_checksumed s)
      \<and> length (block_checksums s) = SDIO_MAX_BLOCKS
      \<and> (transfer_state s = SDIO_RX \<or> transfer_state s = SDIO_IDLE)
      \<and> (transfer_state s = SDIO_RX \<longrightarrow> unat (blocks_done s) < n)
      \<and> (dma_busy s \<longrightarrow> transfer_state s = SDIO_RX)
      \<and> (dma_irq_flag s \<longrightarrow>
            transfer_state s = SDIO_RX \<and> inside_irq_handler s \<and> \<not> dma_busy s))"

text \<open>
  Concrete environments and states for the examples: \<open>quiet_env t\<close> is read at time \<open>t\<close>
  in thread mode, \<open>fault_env t\<close> inside the HardFault handler (exception number 3); in
  both the FIFO levels are reached at once, the CRC words read are zero and memory is
  zero. \<open>one_at p\<close> is a memory that holds 1 in the word at \<open>p\<close> and 0 elsewhere.
\<close>

definition quiet_env :: "u32 \<Rightarrow> env" where
  "quiet_env t =
     \<lparr>millis = t, icsr_vectactive = 0, fifo_level = (\<lambda>k. 8), fifo_crc0 = 0, fifo_crc1 = 0,
      mem = (\<lambda>a. 0)\<rparr>"

definition fault_env :: "u32 \<Rightarrow> env" where
  "fault_env t = (quiet_env t)\<lparr>icsr_vectactive := 3\<rparr>"

definition one_at :: "u32 \<Rightarrow> u32 \<Rightarrow> u32" where
  "one_at p a = (if a = p then 1 else 0)"

text \<open>A receive session of one block, armed at time 0 in thread mode after initialisation.\<close>

definition rx_armed_1 :: sdio where
  "rx_armed_1 =
     rp2040_sdio_init\<lparr>transfer_state := SDIO_RX, data_buf := 0x20000000, total_blocks := 1,
                       dma_busy := True, dma_addr := 0x20000000, data_sm_enabled := True\<rparr>"

text \<open>
  A transmit session of two blocks in the state that \<open>rp2040_sdio_tx_start\<close> leaves
  (without assertions), and one whose checksums are counted as computed, so that the
  assertion of \<open>sdio_start_next_block_tx\<close> holds.
\<close>

definition tx_armed_2 :: "bool \<Rightarrow> sdio" where
  "tx_armed_2 in_handler =
     rp2040_sdio_init\<lparr>transfer_state := SDIO_TX, inside_irq_handler := in_handler,
                       data_buf := 0x20000000, total_blocks := 2, dma_busy := True,
                       dma_addr := 0x20000000, data_sm_enabled := True, data_pins_out := True\<rparr>"

definition tx_ready_2 :: "bool \<Rightarrow> sdio" where
  "tx_ready_2 in_handler = (tx_armed_2 in_handler)\<lparr>blocks_checksumed := 2\<rparr>"

definition tx_session_2 :: "event list" where
  "tx_session_2 = [DmaDone (quiet_env 1), TxPoll True (quiet_env 2), TxPoll True (quiet_env 3)]"

text \<open>
  The same session after its block has completed with the trailing CRC \<open>crc\<close> recorded.
\<close>

definition rx_done_1 :: "u64 \<Rightarrow> sdio" where
  "rx_done_1 crc =
     rx_armed_1\<lparr>transfer_state := SDIO_IDLE, blocks_done := 1, dma_busy := False,
                 block_checksums := (replicate SDIO_MAX_BLOCKS 0)[0 := crc]\<rparr>"

text \<open>The engine is idle and the hardware of the data path is at rest.\<close>

definition engine_stopped :: "sdio \<Rightarrow> bool" where
  "engine_stopped s =
     (transfer_state s = SDIO_IDLE \<and> \<not> dma_busy s \<and> \<not> data_sm_enabled s \<and> \<not> data_pins_out s)"

text \<open>
  A transmit session of one block in the state that \<open>rp2040_sdio_tx_start\<close> leaves
  (without assertions), and an environment whose memory holds a non-zero word in that
  block.
\<close>

definition tx_armed_1 :: sdio where
  "tx_armed_1 =
     rp2040_sdio_init\<lparr>transfer_state := SDIO_TX, data_buf := 0x20000000, total_blocks := 1,
                       dma_busy := True, dma_addr := 0x20000000, data_sm_enabled := True,
                       data_pins_out := True\<rparr>"

definition tx_env :: "u32 \<Rightarrow> env" where
  "tx_env t = (quiet_env t)\<lparr>mem := one_at 0x20000000\<rparr>"

text \<open>
  For the sessions that run statement by statement. Two facts about the past of the
  call in progress are kept beside the session: whether the session was idle when the
  call was made, and the number of blocks that had completed when the call stored
  through \<^verbatim>\<open>bytes_complete\<close>.
\<close>

record rx_history =
  idle_at_call :: bool
  done_at_store :: nat

definition rx_history_next :: "rx_history \<Rightarrow> rx_config \<Rightarrow> rx_action \<Rightarrow> rx_history" where
  "rx_history_next h cfg a =
     (case a of
        DmaCompletes e \<Rightarrow> h
      | PollCalled want_bytes e \<Rightarrow>
          (case snd cfg of
             None \<Rightarrow> h\<lparr>idle_at_call := (transfer_state (fst cfg) = SDIO_IDLE)\<rparr>
           | Some c \<Rightarrow> h)
      | PollRuns \<Rightarrow>
          (case snd cfg of
             None \<Rightarrow> h
           | Some c \<Rightarrow>
               if call_pc c = At_store
               then h\<lparr>done_at_store := unat (blocks_done (fst cfg))\<rparr> else h))"

text \<open>
  The completion handler has fired for one block of a session of \<open>n\<close> blocks, reading
  the CRC words of \<open>e\<close>: exactly one more block is complete and its checksum is recorded
  in its entry of the table; the flag is acknowledged; if blocks remain the transfer of
  the next one is started at its place in the buffer and the transfer state stays as it
  was, otherwise the channel is at rest and the session is idle; the counters of the
  verification are untouched.
\<close>

definition rx_handler_fired :: "nat \<Rightarrow> env \<Rightarrow> sdio \<Rightarrow> sdio \<Rightarrow> bool" where
  "rx_handler_fired n e s s' =
     (unat (blocks_done s') = Suc (unat (blocks_done s))
      \<and> block_checksums s' = (block_checksums s)
            [unat (blocks_done s) := push_bit 32 (ucast (fifo_crc0 e)) OR ucast (fifo_crc1 e)]
      \<and> \<not> dma_irq_flag s'
      \<and> (if unat (blocks_done s') < n
          then dma_busy s' \<and> dma_addr s' = data_buf s + 4 * (128 * blocks_done s')
               \<and> data_sm_enabled s' \<and> transfer_state s' = transfer_state s
          else \<not> dma_busy s' \<and> transfer_state s' = SDIO_IDLE)
      \<and> blocks_checksumed s' = blocks_checksumed s
      \<and> checksum_errors s' = checksum_errors s)"

text \<open>
  A statement of a poll other than a dispatch that runs the handler: it completes no
  block, leaves the checksum table and the flag alone and starts no transfer; only the
  first statement of \<open>rp2040_sdio_stop\<close> stops the channel and only its last one changes
  the transfer state, to idle.
\<close>

definition rx_poll_keeps :: "rx_poll_pc \<Rightarrow> sdio \<Rightarrow> sdio \<Rightarrow> bool" where
  "rx_poll_keeps pc s s' =
     (blocks_done s' = blocks_done s
      \<and> block_checksums s' = block_checksums s
      \<and> dma_irq_flag s' = dma_irq_flag s
      \<and> dma_addr s' = dma_addr s
      \<and> dma_busy s' = (dma_busy s \<and> pc \<noteq> At_stop_abort)
      \<and> transfer_state s' = (if pc = At_stop_idle then SDIO_IDLE else transfer_state s))"

text \<open>
  A bound on the number of statements that a call at a given place of a session of \<open>n\<close>
  blocks still executes before it returns.
\<close>

fun rx_poll_rank :: "nat \<Rightarrow> rx_poll_pc \<Rightarrow> nat" where
  "rx_poll_rank n At_dispatch = 2 * n + 9"
| "rx_poll_rank n At_store = 2 * n + 8"
| "rx_poll_rank n At_state_test = 2 * n + 7"
| "rx_poll_rank n (At_verify_head idle maxcount) = 2 * unat maxcount + 2"
| "rx_poll_rank n (At_verify_body idle maxcount) = 2 * unat maxcount + 3"
| "rx_poll_rank n At_errors_test = 1"
| "rx_poll_rank n At_time_test = 6"
| "rx_poll_rank n At_timeout_log = 5"
| "rx_poll_rank n At_stop_abort = 4"
| "rx_poll_rank n At_stop_sm = 3"
| "rx_poll_rank n At_stop_pins = 2"
| "rx_poll_rank n At_stop_idle = 1"

text \<open>
  What the return of a call promises, in a session armed at time \<open>t0\<close>. A call made
  when the session was idle returns a final status, \<open>SDIO_OK\<close> or \<open>SDIO_ERR_DATA_CRC\<close>. A
  call that leaves the session receiving returns \<open>SDIO_BUSY\<close>. \<open>SDIO_BUSY\<close> is returned
  only within 1000 ms of arming; \<open>SDIO_ERR_DATA_TIMEOUT\<close> only later, with the engine
  stopped, and exactly by the calls that run \<open>rp2040_sdio_stop\<close> to its end; \<open>SDIO_OK\<close> and
  \<open>SDIO_ERR_DATA_CRC\<close> only with the session idle, the first when no mismatch has been
  counted and the second when one has. The value stored through
  \<^verbatim>\<open>bytes_complete\<close> is 512 times the number of blocks that were complete at the store,
  which is at most the number complete at the return.
\<close>

definition rx_return_ok :: "u32 \<Rightarrow> rx_history \<Rightarrow> rx_poll_call \<Rightarrow> sdio \<Rightarrow> poll_result \<Rightarrow> bool" where
  "rx_return_ok t0 h c s' r =
     ((idle_at_call h \<longrightarrow> fst r = SDIO_OK \<or> fst r = SDIO_ERR_DATA_CRC)
      \<and> (transfer_state s' = SDIO_RX \<longrightarrow> fst r = SDIO_BUSY)
      \<and> (fst r = SDIO_ERR_DATA_TIMEOUT \<longleftrightarrow> call_pc c = At_stop_idle)
      \<and> (case fst r of
            SDIO_BUSY \<Rightarrow> \<not> millis (call_env c) - t0 > 1000
          | SDIO_ERR_DATA_TIMEOUT \<Rightarrow> millis (call_env c) - t0 > 1000 \<and> engine_stopped s'
          | SDIO_OK \<Rightarrow> transfer_state s' = SDIO_IDLE \<and> checksum_errors s' = 0
          | SDIO_ERR_DATA_CRC \<Rightarrow> transfer_state s' = SDIO_IDLE \<and> checksum_errors s' \<noteq> 0
          | _ \<Rightarrow> False)
      \<and> (case snd r of
            None \<Rightarrow> \<not> call_want c
          | Some b \<Rightarrow> call_want c \<and> unat b = 512 * done_at_store h)
      \<and> done_at_store h \<le> unat (blocks_done s'))"

text \<open>
  What a receive session of \<open>n\<close> blocks, armed at time \<open>t0\<close>, inside a handler or not
  (\<open>p\<close>), promises for one action. The parameters of the session stay as armed; the
  number of completed blocks does not decrease and stays within \<open>n\<close>.
  \<^item> A completion of the channel does nothing when no transfer is in flight; in a
    session armed inside a handler it only puts the channel at rest and raises the
    flag; otherwise the handler fires.
  \<^item> A call that is made changes nothing in the engine.
  \<^item> A statement of the call in progress fires the handler when it is the dispatch and
    finds the flag raised, and otherwise keeps the progress of the session as
    \<open>rx_poll_keeps\<close> says. Either the call returns, as \<open>rx_return_ok\<close> says, or it goes on
    from a place of smaller rank, with the same arguments.
\<close>

definition rx_action_ok ::
  "nat \<Rightarrow> u32 \<Rightarrow> bool \<Rightarrow> rx_history \<Rightarrow> rx_config \<Rightarrow> rx_action
     \<Rightarrow> poll_result option \<Rightarrow> rx_config \<Rightarrow> bool" where
  "rx_action_ok n t0 p h cfg a out cfg' =
     (unat (total_blocks (fst cfg')) = n
      \<and> transfer_start_time (fst cfg') = t0
      \<and> inside_irq_handler (fst cfg') = p
      \<and> data_buf (fst cfg') = data_buf (fst cfg)
      \<and> unat (blocks_done (fst cfg)) \<le> unat (blocks_done (fst cfg'))
      \<and> unat (blocks_done (fst cfg')) \<le> n
      \<and> (case a of
            DmaCompletes e \<Rightarrow>
              out = None \<and> snd cfg' = snd cfg
              \<and> (if \<not> dma_busy (fst cfg) then fst cfg' = fst cfg
                  else if p then fst cfg' = (fst cfg)\<lparr>dma_busy := False, dma_irq_flag := True\<rparr>
                  else rx_handler_fired n e (fst cfg) (fst cfg'))
          | PollCalled want_bytes e \<Rightarrow>
              out = None \<and> fst cfg' = fst cfg
              \<and> snd cfg' = (case snd cfg of
                              None \<Rightarrow> Some (rx_poll_entry want_bytes e)
                            | Some c \<Rightarrow> Some c)
          | PollRuns \<Rightarrow>
              (case snd cfg of
                 None \<Rightarrow> out = None \<and> cfg' = cfg
               | Some c \<Rightarrow>
                   (if call_pc c = At_dispatch \<and> p \<and> dma_irq_flag (fst cfg)
                    then rx_handler_fired n (call_env c) (fst cfg) (fst cfg')
                    else rx_poll_keeps (call_pc c) (fst cfg) (fst cfg'))
                   \<and> (case out of
                         None \<Rightarrow>
                           (case snd cfg' of
                              None \<Rightarrow> False
                            | Some c' \<Rightarrow>
                                rx_poll_rank n (call_pc c') < rx_poll_rank n (call_pc c)
                                \<and> call_want c' = call_want c \<and> call_env c' = call_env c)
                       | Some r \<Rightarrow> snd cfg' = None \<and> rx_return_ok t0 h c (fst cfg') r))))"

fun rx_schedule_ok ::
  "nat \<Rightarrow> u32 \<Rightarrow> bool \<Rightarrow> rx_history \<Rightarrow> rx_config \<Rightarrow> rx_action list
     \<Rightarrow> (poll_result option \<times> rx_config) list \<Rightarrow> bool" where
  "rx_schedule_ok n t0 p h cfg [] [] = True"
| "rx_schedule_ok n t0 p h cfg (a # as) (out # tr) =
     (rx_action_ok n t0 p h cfg a (fst out) (snd out)
      \<and> rx_schedule_ok n t0 p (rx_history_next h cfg a) (snd out) as tr)"
| "rx_schedule_ok n t0 p h cfg [] (out # tr) = False"
| "rx_schedule_ok n t0 p h cfg (a # as) [] = False"

text \<open>
  The states of a receive session of \<open>n\<close> blocks that runs statement by statement: the
  parameters are those it was armed with; the counters are ordered and bounded; the
  session is receiving or idle, and receiving only while blocks remain; a transfer is
  in flight or a flag pending only while blocks remain, and never both; a flag is
  pending only in a session armed inside a handler; and in a session armed outside, a
  transfer is in flight only while the session is receiving.
\<close>

definition rx_session_inv :: "nat \<Rightarrow> u32 \<Rightarrow> bool \<Rightarrow> sdio \<Rightarrow> bool" where
  "rx_session_inv n t0 p s =
     (unat (total_blocks s) = n \<and> 1 \<le> n \<and> n \<le> SDIO_MAX_BLOCKS
      \<and> transfer_start_time s = t0 \<and> inside_irq_handler s = p
      \<and> unat (blocks_done s) \<le> n
      \<and> unat (blocks_checksumed s) \<le> unat (blocks_done s)
      \<and> unat (checksum_errors s) \<le> unat (blocks_checksumed s)
      \<and> (transfer_state s = SDIO_RX \<or> transfer_state s = SDIO_IDLE)
      \<and> (transfer_state s = SDIO_RX \<longrightarrow> unat (blocks_done s) < n)
      \<and> (dma_busy s \<or> dma_irq_flag s \<longrightarrow> unat (blocks_done s) < n)
      \<and> \<not> (dma_busy s \<and> dma_irq_flag s)
      \<and> (dma_irq_flag s \<longrightarrow> p)
      \<and> (dma_busy s \<and> \<not> p \<longrightarrow> transfer_state s = SDIO_RX))"

text \<open>
  What holds of a call in progress at each place: a call made when the session was
  idle is on the path of an idle session; once it has stored through
  \<^verbatim>\<open>bytes_complete\<close> the value is that of the store; in the loop called from line 441
  the session is idle, in the loop called from line 461 the budget was not exceeded,
  and in the loop body a completed block is unverified; on the way through
  \<open>rp2040_sdio_stop\<close> the budget was exceeded and what has been switched off stays off.
\<close>

fun rx_pc_idle_path :: "rx_poll_pc \<Rightarrow> bool" where
  "rx_pc_idle_path At_dispatch = True"
| "rx_pc_idle_path At_store = True"
| "rx_pc_idle_path At_state_test = True"
| "rx_pc_idle_path (At_verify_head idle maxcount) = idle"
| "rx_pc_idle_path (At_verify_body idle maxcount) = idle"
| "rx_pc_idle_path At_errors_test = True"
| "rx_pc_idle_path At_time_test = False"
| "rx_pc_idle_path At_timeout_log = False"
| "rx_pc_idle_path At_stop_abort = False"
| "rx_pc_idle_path At_stop_sm = False"
| "rx_pc_idle_path At_stop_pins = False"
| "rx_pc_idle_path At_stop_idle = False"

definition rx_call_inv :: "u32 \<Rightarrow> rx_history \<Rightarrow> rx_poll_call \<Rightarrow> sdio \<Rightarrow> bool" where
  "rx_call_inv t0 h c s =
     ((idle_at_call h \<longrightarrow> transfer_state s = SDIO_IDLE \<and> rx_pc_idle_path (call_pc c))
      \<and> (if call_pc c = At_dispatch \<or> call_pc c = At_store then call_bytes c = None
          else call_bytes c = (if call_want c then Some (of_nat (done_at_store h) * 512) else None)
               \<and> done_at_store h \<le> unat (blocks_done s))
      \<and> (case call_pc c of
            At_verify_head idle maxcount \<Rightarrow>
              (if idle then transfer_state s = SDIO_IDLE
               else \<not> millis (call_env c) - t0 > 1000)
          | At_verify_body idle maxcount \<Rightarrow>
              (if idle then transfer_state s = SDIO_IDLE
               else \<not> millis (call_env c) - t0 > 1000)
              \<and> blocks_checksumed s < blocks_done s
          | At_errors_test \<Rightarrow> transfer_state s = SDIO_IDLE
          | At_timeout_log \<Rightarrow> millis (call_env c) - t0 > 1000
          | At_stop_abort \<Rightarrow> millis (call_env c) - t0 > 1000
          | At_stop_sm \<Rightarrow> millis (call_env c) - t0 > 1000 \<and> \<not> dma_busy s
          | At_stop_pins \<Rightarrow>
              millis (call_env c) - t0 > 1000 \<and> \<not> dma_busy s \<and> \<not> data_sm_enabled s
          | At_stop_idle \<Rightarrow>
              millis (call_env c) - t0 > 1000 \<and> \<not> dma_busy s \<and> \<not> data_sm_enabled s
              \<and> \<not> data_pins_out s
          | _ \<Rightarrow> True))"

definition rx_config_inv :: "nat \<Rightarrow> u32 \<Rightarrow> bool \<Rightarrow> rx_history \<Rightarrow> rx_config \<Rightarrow> bool" where
  "rx_config_inv n t0 p h cfg =
     (rx_session_inv n t0 p (fst cfg)
      \<and> (case snd cfg of None \<Rightarrow> True | Some c \<Rightarrow> rx_call_inv t0 h c (fst cfg)))"

text \<open>The actions of a schedule that are statements of a call.\<close>

definition rx_is_run :: "rx_action \<Rightarrow> bool" where
  "rx_is_run a = (case a of PollRuns \<Rightarrow> True | _ \<Rightarrow> False)"

text \<open>
  The progress of a session: everything in the state of the engine except the error
  counter, the table of recorded checksums, the log and the words sent to the transmit
  FIFO. Of a status, whether it is \<open>SDIO_OK\<close> or \<open>SDIO_ERR_DATA_CRC\<close> is left open; of an
  environment, the time, the exception number and the FIFO levels are kept, not the
  CRC words and the memory; of a call in progress, all but the data its environment
  holds.
\<close>

type_synonym session_progress =
  "sdio_transfer_state_t \<times> bool \<times> u32 \<times> u32 \<times> u32 \<times> u32 \<times> u32
     \<times> bool \<times> u32 \<times> bool \<times> bool \<times> bool"

type_synonym timing = "u32 \<times> u32 \<times> (nat \<Rightarrow> u32)"

type_synonym call_progress = "rx_poll_pc \<times> bool \<times> u32 option \<times> timing"

definition rx_progress :: "sdio \<Rightarrow> session_progress" where
  "rx_progress s =
     (transfer_state s, inside_irq_handler s, transfer_start_time s, data_buf s,
      blocks_done s, total_blocks s, blocks_checksumed s, dma_busy s, dma_addr s,
      dma_irq_flag s, data_sm_enabled s, data_pins_out s)"

definition status_up_to_crc :: "sdio_status_t \<Rightarrow> sdio_status_t" where
  "status_up_to_crc st = (if st = SDIO_ERR_DATA_CRC then SDIO_OK else st)"

definition env_timing :: "env \<Rightarrow> timing" where
  "env_timing e = (millis e, icsr_vectactive e, fifo_level e)"

definition rx_call_progress :: "rx_poll_call \<Rightarrow> call_progress" where
  "rx_call_progress c = (call_pc c, call_want c, call_bytes c, env_timing (call_env c))"

definition rx_result_progress :: "poll_result \<Rightarrow> poll_result" where
  "rx_result_progress r = (status_up_to_crc (fst r), snd r)"

definition rx_output_progress ::
  "poll_result option \<times> rx_config
     \<Rightarrow> poll_result option \<times> session_progress \<times> call_progress option" where
  "rx_output_progress x =
     (map_option rx_result_progress (fst x), rx_progress (fst (snd x)),
      map_option rx_call_progress (snd (snd x)))"

text \<open>
  Two actions that differ at most in the CRC words and the memory that they read.
\<close>

definition rx_action_same :: "rx_action \<Rightarrow> rx_action \<Rightarrow> bool" where
  "rx_action_same a a' =
     (case a of
        DmaCompletes e \<Rightarrow>
          (case a' of DmaCompletes e' \<Rightarrow> env_timing e = env_timing e' | _ \<Rightarrow> False)
      | PollCalled want_bytes e \<Rightarrow>
          (case a' of
             PollCalled want_bytes' e' \<Rightarrow> want_bytes = want_bytes' \<and> env_timing e = env_timing e'
           | _ \<Rightarrow> False)
      | PollRuns \<Rightarrow> (case a' of PollRuns \<Rightarrow> True | _ \<Rightarrow> False))"

text \<open>
  A poll of the one-block session \<open>rx_armed_1\<close> during which the block completes, after
  the store through \<^verbatim>\<open>bytes_complete\<close> and before the test of the transfer state; and
  what is looked at in its run: the result of each action and the number of completed
  blocks after it.
\<close>

definition rx_preempted_poll :: "rx_action list" where
  "rx_preempted_poll =
     [PollCalled True (quiet_env 5), PollRuns, PollRuns, DmaCompletes (quiet_env 6),
      PollRuns, PollRuns, PollRuns, PollRuns, PollRuns]"

definition rx_seen :: "poll_result option \<times> rx_config \<Rightarrow> poll_result option \<times> u32" where
  "rx_seen x = (fst x, blocks_done (fst (snd x)))"

text \<open>
  The same poll when the CRC words received with the block are not those of the data.
\<close>

definition rx_preempted_poll_bad :: "rx_action list" where
  "rx_preempted_poll_bad =
     [PollCalled True (quiet_env 5), PollRuns, PollRuns,
      DmaCompletes ((quiet_env 6)\<lparr>fifo_crc1 := 5\<rparr>),
      PollRuns, PollRuns, PollRuns, PollRuns, PollRuns]"

text \<open>
  A session of two blocks armed in thread mode: the first block completes while the
  first poll runs, the second while the second poll runs, and a third poll is made
  later.
\<close>

definition rx_session_2 :: "rx_action list" where
  "rx_session_2 =
     [PollCalled True (quiet_env 5), PollRuns, DmaCompletes (quiet_env 6), PollRuns, PollRuns,
      PollRuns, PollRuns, PollRuns, PollRuns,
      PollCalled True (quiet_env 7), PollRuns, PollRuns, PollRuns, DmaCompletes (quiet_env 8),
      PollRuns, PollRuns, PollRuns, PollRuns,
      PollCalled False (quiet_env 1100), PollRuns, PollRuns, PollRuns, PollRuns, PollRuns,
      PollRuns, PollRuns]"

text \<open>
  A one-block session armed inside the HardFault handler while the completion flag of
  an earlier transfer is still raised, and what is looked at in its run: the result of
  each event, the number of completed blocks and whether the channel is busy.
\<close>

definition rx_stale_1 :: sdio where
  "rx_stale_1 = rx_armed_1\<lparr>inside_irq_handler := True, dma_irq_flag := True\<rparr>"

definition rx_seen_busy :: "poll_result option \<times> sdio \<Rightarrow> poll_result option \<times> u32 \<times> bool" where
  "rx_seen_busy x = (fst x, blocks_done (snd x), dma_busy (snd x))"

section \<open>The CRC16 of the four data lines\<close>

text \<open>
  \<open>bswap32\<close> permutes bits and every other operation of \<open>crc16_step\<close> is a shift or an
  exclusive or, so the step is linear over exclusive or. A step with a zero data word is
  injective on the accumulator and a step from the zero accumulator is injective on the
  data word; together they show that a changed word always changes the checksum.
\<close>

lemma bit_bswap32: "bit (bswap32 x) n \<longleftrightarrow>
   (n < 8 \<and> bit x (n + 24)) \<or> (8 \<le> n \<and> n < 16 \<and> bit x (n + 8)) \<or> (16 \<le> n \<and> n < 24 \<and> bit x (n - 8))
    \<or> (24 \<le> n \<and> n < 32 \<and> bit x (n - 24))"
proof -
  have hi: "\<And>m. bit x m \<Longrightarrow> m < 32" using bit_imp_le_length[of x] by simp
  consider "n < 8" | "8 \<le> n \<and> n < 16" | "16 \<le> n \<and> n < 24" | "24 \<le> n \<and> n < 32" | "32 \<le> n"
    by linarith
  then show ?thesis
  proof cases
    case 1 then show ?thesis by (auto simp add: bswap32_def bit_simps ac_simps)
  next
    case 2
    then have "n - 8 + 16 = n + 8" "\<not> bit x (24 + n)" using hi[of "24 + n"] by auto
    with 2 show ?thesis by (auto simp add: bswap32_def bit_simps ac_simps)
  next
    case 3
    then have "8 + (n - 16) = n - 8" "\<not> bit x (24 + n)" using hi[of "24 + n"] by auto
    with 3 show ?thesis by (auto simp add: bswap32_def bit_simps ac_simps)
  next
    case 4
    then have "\<not> bit x (24 + n)" using hi[of "24 + n"] by auto
    with 4 show ?thesis by (auto simp add: bswap32_def bit_simps ac_simps)
  next
    case 5
    then have "\<not> bit x (24 + n)" using hi[of "24 + n"] by auto
    with 5 show ?thesis by (auto simp add: bswap32_def bit_simps ac_simps)
  qed
qed

lemma bswap32_xor: "bswap32 (a XOR b) = bswap32 a XOR bswap32 b"
  by (rule bit_word_eqI) (auto simp add: bit_bswap32 bit_xor_iff)

lemma bswap32_0: "bswap32 0 = 0" by (simp add: bswap32_def)

lemma bswap32_eq_0: assumes "bswap32 w = 0" shows "w = 0"
proof (rule bit_word_eqI)
  fix n assume n: "n < LENGTH(32)"
  have z: "\<And>k. \<not> bit (bswap32 w) k" using assms by simp
  consider "n < 8" | "8 \<le> n \<and> n < 16" | "16 \<le> n \<and> n < 24" | "24 \<le> n \<and> n < 32" using n by fastforce
  then have "\<not> bit w n"
  proof cases
    case 1 with z[of "n + 24"] show ?thesis by (simp add: bit_bswap32)
  next
    case 2 with z[of "n + 8"] show ?thesis by (simp add: bit_bswap32)
  next
    case 3 with z[of "n - 8"] show ?thesis by (auto simp add: bit_bswap32)
  next
    case 4 with z[of "n - 24"] show ?thesis by (auto simp add: bit_bswap32)
  qed
  then show "bit w n \<longleftrightarrow> bit (0::u32) n" by simp
qed

lemma crc16_step_xor:
  "crc16_step (a XOR b) (v XOR w) = crc16_step a v XOR crc16_step b w"
  unfolding crc16_step_def Let_def bswap32_xor
  by (simp add: unsigned_xor_eq ac_simps)

lemma fold16_eq_0:
  fixes h :: u32
  assumes "h XOR drop_bit 16 h = 0"
  shows "h = 0"
proof (rule bit_word_eqI)
  fix n assume "n < LENGTH(32)"
  have e: "\<And>k. bit h k = bit h (k + 16)"
  proof -
    fix k
    have "bit (h XOR drop_bit 16 h) k = False" using assms by simp
    then show "bit h k = bit h (k + 16)" by (simp add: bit_simps ac_simps)
  qed
  have "bit h n = bit h (n + 16)" by (rule e)
  also have "\<dots> = bit h (n + 16 + 16)" by (rule e)
  also have "\<dots> = False" using bit_imp_le_length[of h "n + 16 + 16"] by auto
  finally show "bit h n \<longleftrightarrow> bit (0::u32) n" by simp
qed

lemma taps_eq_0:
  fixes x :: u32 and c :: u64
  assumes "push_bit 32 c XOR ucast x XOR push_bit 20 (ucast x :: u64) XOR push_bit 48 (ucast x :: u64) = 0"
  shows "x = 0"
proof -
  have z: "\<And>k. \<not> bit (push_bit 32 c XOR ucast x XOR push_bit 20 (ucast x :: u64) XOR push_bit 48 (ucast x :: u64)) k"
    using assms by simp
  have lo: "\<not> bit x n" if "n < 20" for n
    using z[of n] that by (simp add: bit_simps)
  have mid: "\<not> bit x n" if "20 \<le> n" "n < 32" for n
    using z[of n] that lo[of "n - 20"] by (simp add: bit_simps)
  show ?thesis
  proof (rule bit_word_eqI)
    fix n assume "n < LENGTH(32)"
    then show "bit x n \<longleftrightarrow> bit (0::u32) n"
      using lo[of n] mid[of n] by (cases "n < 20") auto
  qed
qed

lemma crc16_step_data_eq_0:
  assumes "crc16_step 0 w = 0"
  shows "w = 0"
proof -
  let ?d = "bswap32 w"
  have "?d XOR drop_bit 16 ?d = 0"
    using assms unfolding crc16_step_def Let_def
    by (intro taps_eq_0[where c = 0]) (simp add: ac_simps)
  then have "?d = 0" by (rule fold16_eq_0)
  then show ?thesis by (rule bswap32_eq_0)
qed

lemma crc16_step_crc_eq_0:
  assumes "crc16_step c 0 = 0"
  shows "c = 0"
proof -
  let ?h = "ucast (drop_bit 32 c) :: u32"
  have s: "push_bit 32 c XOR ucast (?h XOR drop_bit 16 ?h) XOR push_bit 20 (ucast (?h XOR drop_bit 16 ?h) :: u64)
        XOR push_bit 48 (ucast (?h XOR drop_bit 16 ?h) :: u64) = 0"
    using assms unfolding crc16_step_def Let_def by (simp add: bswap32_0)
  then have "?h XOR drop_bit 16 ?h = 0" by (rule taps_eq_0)
  then have h: "?h = 0" by (rule fold16_eq_0)
  with s have p: "push_bit 32 c = 0" by simp
  show ?thesis
  proof (rule bit_word_eqI)
    fix n assume n: "n < LENGTH(64)"
    show "bit c n \<longleftrightarrow> bit (0::u64) n"
    proof (cases "n < 32")
      case True
      have "\<not> bit (push_bit 32 c) (n + 32)" using p by simp
      with True show ?thesis by (simp add: bit_simps)
    next
      case False
      have "\<not> bit ?h (n - 32)" using h by simp
      with False n show ?thesis by (simp add: bit_simps)
    qed
  qed
qed

lemma crc16_loop_zeros_eq_0:
  "crc16_loop c (replicate k 0) = 0 \<longleftrightarrow> c = 0"
proof (induction k arbitrary: c)
  case 0 show ?case by simp
next
  case (Suc k)
  have "crc16_step 0 0 = 0" by (simp add: crc16_step_def bswap32_0)
  with Suc show ?case using crc16_step_crc_eq_0[of c] by auto
qed

lemma crc16_loop_diff:
  "crc16_loop a ws XOR crc16_loop b ws = crc16_loop (a XOR b) (replicate (length ws) 0)"
proof (induction ws arbitrary: a b)
  case Nil show ?case by simp
next
  case (Cons w ws)
  have "crc16_step a w XOR crc16_step b w = crc16_step (a XOR b) 0"
    using crc16_step_xor[of a b w w] by simp
  with Cons[of "crc16_step a w" "crc16_step b w"] show ?case by simp
qed

lemma crc16_loop_append: "crc16_loop c (xs @ ys) = crc16_loop (crc16_loop c xs) ys"
  by (induction xs arbitrary: c) simp_all

lemma crc16_loop_perturb_mid:
  assumes "e \<noteq> 0"
  shows "crc16_loop c (xs @ (w XOR e) # ys) \<noteq> crc16_loop c (xs @ w # ys)"
proof -
  define c1 where "c1 = crc16_loop c xs"
  have "crc16_loop c (xs @ (w XOR e) # ys) XOR crc16_loop c (xs @ w # ys)
      = crc16_loop (crc16_step c1 (w XOR e)) ys XOR crc16_loop (crc16_step c1 w) ys"
    by (simp add: crc16_loop_append c1_def)
  also have "\<dots> = crc16_loop (crc16_step c1 (w XOR e) XOR crc16_step c1 w) (replicate (length ys) 0)"
    by (rule crc16_loop_diff)
  also have "crc16_step c1 (w XOR e) XOR crc16_step c1 w = crc16_step 0 e"
    using crc16_step_xor[of c1 c1 "w XOR e" w] by (simp add: ac_simps)
  finally have d: "crc16_loop c (xs @ (w XOR e) # ys) XOR crc16_loop c (xs @ w # ys)
      = crc16_loop (crc16_step 0 e) (replicate (length ys) 0)" .
  have "crc16_step 0 e \<noteq> 0" using crc16_step_data_eq_0[of e] assms by auto
  then have "crc16_loop (crc16_step 0 e) (replicate (length ys) 0) \<noteq> 0"
    by (simp add: crc16_loop_zeros_eq_0)
  with d show ?thesis by auto
qed

lemma crc16_loop_perturb:
  assumes "i < length ws" "e \<noteq> 0"
  shows "crc16_loop c (ws[i := ws ! i XOR e]) \<noteq> crc16_loop c ws"
proof -
  have ws: "ws = take i ws @ ws ! i # drop (Suc i) ws"
    using assms(1) by (simp add: id_take_nth_drop)
  have upd: "ws[i := ws ! i XOR e] = take i ws @ (ws ! i XOR e) # drop (Suc i) ws"
    using assms(1) by (simp add: upd_conv_take_nth_drop)
  from crc16_loop_perturb_mid[OF assms(2), of c "take i ws" "ws ! i" "drop (Suc i) ws"]
  show ?thesis unfolding upd using ws by simp
qed

text \<open>
  C8. The checksum of an all-zero block of 128 words is the fixed value 0, and flipping
  any single bit \<open>j\<close> of any word \<open>i\<close> of a 128-word block changes the checksum.
\<close>

theorem crc16_zero_block_and_single_bit_flip:
  assumes "length ws = 128" and "i < 128" and "j < 32"
  shows "sdio_crc16_4bit_checksum (replicate 128 0) = 0
       \<and> sdio_crc16_4bit_checksum (ws[i := flip_bit j (ws ! i)]) \<noteq> sdio_crc16_4bit_checksum ws"
proof -
  have "bit (push_bit j 1 :: u32) j" using assms(3) by (simp add: bit_simps)
  then have "(push_bit j 1 :: u32) \<noteq> 0" using assms(3) by auto
  then have "crc16_loop 0 (ws[i := ws ! i XOR push_bit j 1]) \<noteq> crc16_loop 0 ws"
    using assms(1,2) crc16_loop_perturb[of i ws "push_bit j 1" 0] by simp
  then show ?thesis
    by (simp add: sdio_crc16_4bit_checksum_def flip_bit_eq_xor crc16_loop_zeros_eq_0)
qed

theorem crc16_zero_block_and_single_bit_flip_witness:
  "length (replicate 128 (0::u32)) = 128 \<and> (5::nat) < 128 \<and> (31::nat) < 32
   \<and> sdio_crc16_4bit_checksum (replicate 128 0) = 0
   \<and> sdio_crc16_4bit_checksum ((replicate 128 0)[5 := flip_bit 31 (replicate 128 0 ! 5)])
       \<noteq> sdio_crc16_4bit_checksum (replicate 128 0)"
  using crc16_zero_block_and_single_bit_flip[of "replicate 128 0" 5 31] by auto

section \<open>Validation of R1 responses\<close>

lemma and_255_eq_take_bit: "(w :: u32) AND 0xFF = take_bit 8 w"
  using take_bit_eq_mask[of 8 w] by (simp add: mask_eq_exp_minus_1)

lemma ucast_take_bit_8: "(ucast (take_bit 8 w :: u32) :: u8) = ucast w"
  by (rule bit_word_eqI) (auto simp add: bit_simps)

lemma ucast_and_255: "(ucast (w AND 0xFF :: u32) :: u8) = ucast w"
  by (simp add: and_255_eq_take_bit ucast_take_bit_8)

lemma and_FFFFFF_eq_take_bit: "(w :: u32) AND 0xFFFFFF = take_bit 24 w"
  using take_bit_eq_mask[of 24 w] by (simp add: mask_eq_exp_minus_1)

lemma ucast_and_254: "(ucast (w AND 0xFE :: u32) :: u8) = ucast w AND 0xFE"
  by (simp add: unsigned_and_eq)

lemma R1_response_crc_eq: "R1_response_crc resp0 resp1 = crc7 (R1_response_bytes resp0 resp1)"
  by (simp add: R1_response_crc_def crc7_def R1_response_bytes_def Let_def ucast_and_255)

text \<open>
  C7. When an R1 response is expected and has arrived, \<open>rp2040_sdio_command_R1\<close> returns
  the decoded payload only if the CRC7 over the received bytes equals the CRC byte with
  its last bit masked out, and only if the first byte echoes the command or the command
  is 41; a CRC mismatch gives \<open>SDIO_ERR_RESPONSE_CRC\<close>, an echo mismatch for a command
  other than 41 gives \<open>SDIO_ERR_RESPONSE_CODE\<close>.
\<close>

theorem rp2040_sdio_command_R1_validates_response:
  assumes "wait_response start 2 polls = Some True"
  shows "(\<forall>p. rp2040_sdio_command_R1 command arg True start polls resp0 resp1
               = Some (SDIO_OK, Some p)
            \<longrightarrow> crc7 (R1_response_bytes resp0 resp1) = R1_crc_byte resp1 AND 0xFE
              \<and> (ucast (drop_bit 24 resp0) = command \<or> command = 41)
              \<and> p = R1_payload resp0 resp1)
       \<and> (crc7 (R1_response_bytes resp0 resp1) \<noteq> R1_crc_byte resp1 AND 0xFE
            \<longrightarrow> rp2040_sdio_command_R1 command arg True start polls resp0 resp1
                = Some (SDIO_ERR_RESPONSE_CRC, None))
       \<and> (crc7 (R1_response_bytes resp0 resp1) = R1_crc_byte resp1 AND 0xFE
            \<and> ucast (drop_bit 24 resp0) \<noteq> command \<and> command \<noteq> 41
            \<longrightarrow> rp2040_sdio_command_R1 command arg True start polls resp0 resp1
                = Some (SDIO_ERR_RESPONSE_CODE, None))
       \<and> (crc7 (R1_response_bytes resp0 resp1) = R1_crc_byte resp1 AND 0xFE
            \<and> (ucast (drop_bit 24 resp0) = command \<or> command = 41)
            \<longrightarrow> rp2040_sdio_command_R1 command arg True start polls resp0 resp1
                = Some (SDIO_OK, Some (R1_payload resp0 resp1)))"
  using assms
  by (simp add: rp2040_sdio_command_R1_def Let_def R1_response_crc_eq R1_crc_byte_def
      R1_payload_def ucast_and_255 ucast_and_254 and_255_eq_take_bit and_FFFFFF_eq_take_bit
      ucast_take_bit_8)

lemma crc7_CMD8_echo: "crc7 [0x08, 0x00, 0x00, 0x01, 0xAA] = 0x12"
  by (simp add: crc7_def crc7_update_def crc7_table_def)

text \<open>
  The frame of \<^verbatim>\<open>CMD0\<close> with argument 0 carries the bytes 40 00 00 00 00 95 of the SD
  specification after the length and direction fields.
\<close>

lemma sdio_send_command_CMD0: "sdio_send_command 0 0 0 = (0x2F400000, 0x00009500)"
  by (simp add: sdio_send_command_def Let_def crc7_update_def crc7_table_def)

theorem rp2040_sdio_command_R1_validates_response_witness:
  "wait_response 0 2 [(0, 1), (2, 1)] = Some True
   \<and> rp2040_sdio_command_R1 8 0x1AA True 0 [(0, 1), (2, 1)] 0x08000001 0x0000AA13
       = Some (SDIO_OK, Some 0x1AA)
   \<and> rp2040_sdio_command_R1 8 0x1AA True 0 [(0, 1), (2, 1)] 0x08000001 0x0000AA15
       = Some (SDIO_ERR_RESPONSE_CRC, None)
   \<and> rp2040_sdio_command_R1 8 0x1AA True 0 [(0, 1), (2, 1)] 0x08000001 0x0000AA13
       \<noteq> Some (SDIO_ERR_RESPONSE_CODE, None)"
proof -
  have w: "wait_response 0 2 [(0, 1), (2, 1)] = Some True" by simp
  have b: "R1_response_bytes 0x08000001 0x0000AA13 = [0x08, 0x00, 0x00, 0x01, 0xAA]"
          "R1_response_bytes 0x08000001 0x0000AA15 = [0x08, 0x00, 0x00, 0x01, 0xAA]"
    by (simp_all add: R1_response_bytes_def)
  have p: "R1_payload 0x08000001 0x0000AA13 = 0x1AA"
    by (simp add: R1_payload_def)
  from rp2040_sdio_command_R1_validates_response[OF w, of 8 "0x1AA" "0x08000001" "0x0000AA13"]
       rp2040_sdio_command_R1_validates_response[OF w, of 8 "0x1AA" "0x08000001" "0x0000AA15"]
  show ?thesis
    by (simp add: w b p crc7_CMD8_echo R1_crc_byte_def)
qed

section \<open>Card initialisation\<close>

lemma identify_ok_iff:
  "retries < 5 \<Longrightarrow>
     (fst (identify reply8 retries) = SDIO_OK \<and> snd (identify reply8 retries) = 0x1AA)
       \<longleftrightarrow> (\<exists>k. retries \<le> k \<and> k < 5 \<and> cmd8_ok (reply8 k))"
proof (induction reply8 retries rule: identify.induct)
  case (1 reply8 retries)
  obtain status payload where r: "reply8 retries = (status, payload)"
    by (cases "reply8 retries")
  show ?case
  proof (cases "status = SDIO_OK \<and> payload = 0x1AA")
    case True
    then have "cmd8_ok (reply8 retries)" by (simp add: cmd8_ok_def r)
    with "1.prems" have "\<exists>k. retries \<le> k \<and> k < 5 \<and> cmd8_ok (reply8 k)" by auto
    moreover have "identify reply8 retries = (SDIO_OK, 0x1AA)"
      using True by (subst identify.simps) (simp add: r)
    ultimately show ?thesis by simp
  next
    case False
    then have no: "\<not> cmd8_ok (reply8 retries)" by (auto simp add: cmd8_ok_def r)
    show ?thesis
    proof (cases "retries + 1 < 5")
      case True
      have "identify reply8 retries = identify reply8 (retries + 1)"
        using False True by (subst identify.simps) (auto simp add: r)
      moreover have nb: "\<not> (status = SDIO_OK \<and> (if status = SDIO_OK then payload else 0) = 0x1AA)"
        using False by auto
      have "(fst (identify reply8 (retries + 1)) = SDIO_OK
                      \<and> snd (identify reply8 (retries + 1)) = 0x1AA)
               \<longleftrightarrow> (\<exists>k. retries + 1 \<le> k \<and> k < 5 \<and> cmd8_ok (reply8 k))"
        by (rule "1.IH"[OF refl r[symmetric] refl nb True True])
      moreover have "(\<exists>k. retries + 1 \<le> k \<and> k < 5 \<and> cmd8_ok (reply8 k))
               \<longleftrightarrow> (\<exists>k. retries \<le> k \<and> k < 5 \<and> cmd8_ok (reply8 k))"
        using no by (metis Suc_eq_plus1 Suc_leI le_neq_implies_less add_leD1)
      ultimately show ?thesis by simp
    next
      case last: False
      have "identify reply8 retries = (status, if status = SDIO_OK then payload else 0)"
        using False last by (subst identify.simps) (auto simp add: r)
      moreover have "\<not> (\<exists>k. retries \<le> k \<and> k < 5 \<and> cmd8_ok (reply8 k))"
      proof
        assume "\<exists>k. retries \<le> k \<and> k < 5 \<and> cmd8_ok (reply8 k)"
        then obtain k where k: "retries \<le> k" "k < 5" "cmd8_ok (reply8 k)" by auto
        with last have "k = retries" by simp
        with k no show False by simp
      qed
      ultimately show ?thesis using False by auto
    qed
  qed
qed

lemma acmd41_loop_dropWhile:
  "acmd41_loop start polls =
     (case dropWhile (\<lambda>t. \<not> turn_fails start t \<and> \<not> turn_ready t) polls of
        [] \<Rightarrow> None
      | t # rest \<Rightarrow> Some (\<not> turn_fails start t))"
proof (induction start polls rule: acmd41_loop.induct)
  case (1 start)
  show ?case by simp
next
  case (2 start st55 st41 ocr now rest)
  have "(0x80000000 :: u32) = 2 ^ 31" by simp
  then have b: "(ocr AND 0x80000000 = 0) \<longleftrightarrow> \<not> bit ocr 31"
    by (simp only: and_exp_eq_0_iff_not_bit)
  show ?case using 2 by (auto simp add: turn_fails_def turn_ready_def b)
qed

text \<open>
  C9. \<open>SdioCard_begin\<close> gives up with \<open>false\<close> when none of the first five \<^verbatim>\<open>CMD8\<close>
  replies is a valid echo; otherwise it repeats \<^verbatim>\<open>CMD55\<close> and \<^verbatim>\<open>ACMD41\<close> until a turn
  fails (a failed command, or more than 1000 ms elapsed) or reports bit 31 of the OCR, and
  it returns \<open>true\<close> exactly when that turn did not fail and \<^verbatim>\<open>CMD2\<close>, \<^verbatim>\<open>CMD3\<close>, \<^verbatim>\<open>CMD7\<close>,
  \<^verbatim>\<open>CMD55\<close> and \<^verbatim>\<open>ACMD6\<close> all succeed.
\<close>

theorem SdioCard_begin_retries_and_polls:
  "SdioCard_begin c =
     (if \<not> (\<exists>k. k < 5 \<and> cmd8_ok (cmd8_reply c k)) then Some False
      else
        (case dropWhile (\<lambda>t. \<not> turn_fails (acmd41_start c) t \<and> \<not> turn_ready t)
                (acmd41_polls c) of
           [] \<Rightarrow> None
         | t # rest \<Rightarrow>
             Some (\<not> turn_fails (acmd41_start c) t
                   \<and> cmd2_status c = SDIO_OK \<and> fst (cmd3_reply c) = SDIO_OK
                   \<and> cmd7_status c = SDIO_OK \<and> cmd55_status c = SDIO_OK
                   \<and> acmd6_status c = SDIO_OK)))"
proof -
  have i: "(fst (identify (cmd8_reply c) 0) = SDIO_OK \<and> snd (identify (cmd8_reply c) 0) = 0x1AA)
         \<longleftrightarrow> (\<exists>k. k < 5 \<and> cmd8_ok (cmd8_reply c k))"
    using identify_ok_iff[of 0 "cmd8_reply c"] by simp
  show ?thesis
  proof (cases "\<exists>k. k < 5 \<and> cmd8_ok (cmd8_reply c k)")
    case True
    with i have id: "identify (cmd8_reply c) 0 = (SDIO_OK, 0x1AA)"
      by (metis prod.collapse)
    show ?thesis
    proof (cases "dropWhile (\<lambda>t. \<not> turn_fails (acmd41_start c) t \<and> \<not> turn_ready t)
                    (acmd41_polls c)")
      case Nil
      have "acmd41_loop (acmd41_start c) (acmd41_polls c) = None"
        unfolding acmd41_loop_dropWhile Nil by simp
      then have "SdioCard_begin c = None"
        using id by (simp add: SdioCard_begin_def)
      then show ?thesis using True unfolding Nil by simp
    next
      case (Cons t rest)
      have a: "acmd41_loop (acmd41_start c) (acmd41_polls c)
                 = Some (\<not> turn_fails (acmd41_start c) t)"
        unfolding acmd41_loop_dropWhile Cons by simp
      have "SdioCard_begin c =
              Some (\<not> turn_fails (acmd41_start c) t
                   \<and> cmd2_status c = SDIO_OK \<and> fst (cmd3_reply c) = SDIO_OK
                   \<and> cmd7_status c = SDIO_OK \<and> cmd55_status c = SDIO_OK
                   \<and> acmd6_status c = SDIO_OK)"
        using id a by (cases "turn_fails (acmd41_start c) t") (simp_all add: SdioCard_begin_def)
      then show ?thesis using True unfolding Cons by simp
    qed
  next
    case False
    with i have "snd (identify (cmd8_reply c) 0) \<noteq> 0x1AA \<or> fst (identify (cmd8_reply c) 0) \<noteq> SDIO_OK"
      by blast
    then show ?thesis using False
      by (simp add: SdioCard_begin_def split_beta)
  qed
qed

theorem SdioCard_begin_retries_and_polls_witness:
  "SdioCard_begin
     \<lparr>cmd8_reply = (\<lambda>k. if k = 2 then (SDIO_OK, 0x1AA) else (SDIO_ERR_RESPONSE_TIMEOUT, 0)),
      acmd41_start = 100,
      acmd41_polls = [(SDIO_OK, SDIO_OK, 0x00FF8000, 110), (SDIO_OK, SDIO_OK, 0xC0FF8000, 160)],
      cmd2_status = SDIO_OK, cmd3_reply = (SDIO_OK, 0x12340000), cmd7_status = SDIO_OK,
      cmd55_status = SDIO_OK, acmd6_status = SDIO_OK\<rparr> = Some True
   \<and> SdioCard_begin
     \<lparr>cmd8_reply = (\<lambda>k. if k = 5 then (SDIO_OK, 0x1AA) else (SDIO_ERR_RESPONSE_TIMEOUT, 0)),
      acmd41_start = 100,
      acmd41_polls = [(SDIO_OK, SDIO_OK, 0xC0FF8000, 110)],
      cmd2_status = SDIO_OK, cmd3_reply = (SDIO_OK, 0x12340000), cmd7_status = SDIO_OK,
      cmd55_status = SDIO_OK, acmd6_status = SDIO_OK\<rparr> = Some False
   \<and> SdioCard_begin
     \<lparr>cmd8_reply = (\<lambda>k. (SDIO_OK, 0x1AA)),
      acmd41_start = 100,
      acmd41_polls = [(SDIO_OK, SDIO_OK, 0x00FF8000, 110), (SDIO_OK, SDIO_OK, 0xC0FF8000, 1101)],
      cmd2_status = SDIO_OK, cmd3_reply = (SDIO_OK, 0x12340000), cmd7_status = SDIO_OK,
      cmd55_status = SDIO_OK, acmd6_status = SDIO_OK\<rparr> = Some False"
proof -
  let ?r1 = "\<lambda>k::nat. if k = 2 then (SDIO_OK, 0x1AA :: u32) else (SDIO_ERR_RESPONSE_TIMEOUT, 0)"
  let ?r2 = "\<lambda>k::nat. if k = 5 then (SDIO_OK, 0x1AA :: u32) else (SDIO_ERR_RESPONSE_TIMEOUT, 0)"
  have e1: "\<exists>k. k < 5 \<and> cmd8_ok (?r1 k)"
    by (rule exI[of _ 2]) (simp add: cmd8_ok_def)
  have e2: "\<not> (\<exists>k. k < 5 \<and> cmd8_ok (?r2 k))"
    by (simp add: cmd8_ok_def)
  have e3: "\<exists>k::nat. k < 5 \<and> cmd8_ok (SDIO_OK, 0x1AA :: u32)"
    by (rule exI[of _ 0]) (simp add: cmd8_ok_def)
  have b: "\<not> bit (0x00FF8000 :: u32) 31" "bit (0xC0FF8000 :: u32) 31"
    by (simp_all add: bit_iff_odd_drop_bit drop_bit_eq_div)
  show ?thesis
    by (simp add: SdioCard_begin_retries_and_polls e1 e2 e3 b turn_fails_def turn_ready_def)
qed

section \<open>Forcing the engine to idle\<close>

text \<open>
  C10. \<open>rp2040_sdio_stop\<close>, from any state, returns \<open>SDIO_OK\<close> and leaves the session
  idle with the DMA channel aborted, the data state machine disabled and the data pins
  released; a second call changes nothing more.
\<close>

theorem rp2040_sdio_stop_idle_idempotent:
  "fst (rp2040_sdio_stop s) = SDIO_OK
   \<and> transfer_state (snd (rp2040_sdio_stop s)) = SDIO_IDLE
   \<and> \<not> dma_busy (snd (rp2040_sdio_stop s))
   \<and> \<not> data_sm_enabled (snd (rp2040_sdio_stop s))
   \<and> \<not> data_pins_out (snd (rp2040_sdio_stop s))
   \<and> rp2040_sdio_stop (snd (rp2040_sdio_stop s)) = rp2040_sdio_stop s"
  by (simp add: rp2040_sdio_stop_def)

section \<open>Verification of received checksums\<close>

lemma verify_upto_ge: "unat (blocks_checksumed s) \<le> verify_upto maxcount s"
  by (simp add: verify_upto_def word_less_nat_alt)

lemma rx_verified_same: "rx_verified m (unat (blocks_checksumed s)) s = s"
  by (simp add: rx_verified_def rx_mismatches_def)

lemma sdio_verify_rx_checksums_stop:
  "\<not> (blocks_checksumed s < blocks_done s \<and> maxcount > 0)
     \<Longrightarrow> sdio_verify_rx_checksums m maxcount s = Inr s"
  by (subst sdio_verify_rx_checksums.simps) auto

lemma rx_block_mismatch_cong:
  "data_buf s' = data_buf s \<Longrightarrow> block_checksums s' = block_checksums s
     \<Longrightarrow> rx_block_mismatch m s' = rx_block_mismatch m s"
  by (rule ext) (simp add: rx_block_mismatch_def rx_block_crc_def)

lemma rx_mismatches_cong:
  "data_buf s' = data_buf s \<Longrightarrow> block_checksums s' = block_checksums s
     \<Longrightarrow> rx_mismatches m s' lo hi = rx_mismatches m s lo hi"
  using rx_block_mismatch_cong[of s' s m] by (simp add: rx_mismatches_def)

lemma rx_mismatches_upd:
  "rx_mismatches m (s\<lparr>blocks_checksumed := a\<rparr>) = rx_mismatches m s"
  "rx_mismatches m (s\<lparr>checksum_errors := b\<rparr>) = rx_mismatches m s"
  "rx_mismatches m (s\<lparr>msgs := c\<rparr>) = rx_mismatches m s"
  by (rule ext, rule ext, rule rx_mismatches_cong, simp, simp)+

lemma rx_block_crc_upd:
  "rx_block_crc m (s\<lparr>blocks_checksumed := a\<rparr>) = rx_block_crc m s"
  "rx_block_crc m (s\<lparr>checksum_errors := b\<rparr>) = rx_block_crc m s"
  "rx_block_crc m (s\<lparr>msgs := c\<rparr>) = rx_block_crc m s"
  by (rule ext, simp add: rx_block_crc_def)+

lemma rx_mismatches_step:
  "lo < hi \<Longrightarrow> rx_mismatches m s lo hi =
     (if rx_block_mismatch m s lo then [lo] else []) @ rx_mismatches m s (Suc lo) hi"
  by (simp add: rx_mismatches_def upt_conv_Cons)

lemma word_succ_eq_1_iff: "(w :: u32) + 1 = 1 \<longleftrightarrow> w = 0"
  by simp

lemma sdio_verify_rx_checksums_aux:
  "n = verify_upto maxcount s - unat (blocks_checksumed s)
   \<Longrightarrow> unat (blocks_done s) \<le> SDIO_MAX_BLOCKS
   \<Longrightarrow> unat (checksum_errors s) \<le> unat (blocks_checksumed s)
   \<Longrightarrow> sdio_verify_rx_checksums m maxcount s = Inr (rx_verified m (verify_upto maxcount s) s)"
proof (induction n arbitrary: s maxcount)
  case 0
  have eq: "verify_upto maxcount s = unat (blocks_checksumed s)"
    using 0(1) verify_upto_ge[of s maxcount] by simp
  have "\<not> (blocks_checksumed s < blocks_done s \<and> maxcount > 0)"
  proof
    assume a: "blocks_checksumed s < blocks_done s \<and> maxcount > 0"
    then have "unat (blocks_checksumed s) < unat (blocks_done s)" "0 < unat maxcount"
      by (simp_all add: word_less_nat_alt)
    with a eq show False by (simp add: verify_upto_def min_def split: if_splits)
  qed
  then show ?case
    by (simp add: eq sdio_verify_rx_checksums_stop rx_verified_same)
next
  case (Suc n)
  let ?c = "blocks_checksumed s"
  let ?lo = "unat (blocks_checksumed s)"
  let ?hi = "verify_upto maxcount s"
  have lt: "?c < blocks_done s"
    using Suc(2) by (auto simp add: verify_upto_def split: if_splits)
  have mc: "maxcount > 0"
  proof (rule ccontr)
    assume "\<not> maxcount > 0"
    then have "maxcount = 0" by (simp add: word_greater_zero_iff)
    then show False using Suc(2) by (simp add: verify_upto_def word_less_nat_alt split: if_splits)
  qed
  have umc: "0 < unat maxcount" using mc by (simp add: word_less_nat_alt)
  have umc1: "unat (maxcount - 1) = unat maxcount - 1"
    using mc by (simp add: unat_minus_one word_greater_zero_iff)
  have lo_lt: "?lo < unat (blocks_done s)" using lt by (simp add: word_less_nat_alt)
  have lo256: "?lo < 256" using lo_lt Suc(3) by (simp add: SDIO_MAX_BLOCKS_def)
  have ulo: "unat (?c + 1) = Suc ?lo"
    using lo256 unat_add_lem[of ?c 1] by simp
  have hi: "?hi = min (unat (blocks_done s)) (?lo + unat maxcount)"
    using lt by (simp add: verify_upto_def)
  have lo_hi: "?lo < ?hi" using hi lo_lt umc by simp
  have e256: "unat (checksum_errors s) < 256" using Suc(4) lo256 by simp
  have ue: "unat (checksum_errors s + 1) = Suc (unat (checksum_errors s))"
    using e256 unat_add_lem[of "checksum_errors s" 1] by simp
  have e1: "checksum_errors s + 1 \<noteq> 0"
    using ue by (metis Zero_not_Suc unat_0)
  define s2 where "s2 =
     (if rx_block_mismatch m s ?lo
      then (if checksum_errors s = 0
            then s\<lparr>blocks_checksumed := ?c + 1, checksum_errors := checksum_errors s + 1,
                   msgs := msgs s @ [LogRxChecksumError (rx_block_crc m s ?lo)
                                       (block_checksums s ! ?lo)]\<rparr>
            else s\<lparr>blocks_checksumed := ?c + 1, checksum_errors := checksum_errors s + 1\<rparr>)
      else s\<lparr>blocks_checksumed := ?c + 1\<rparr>)"
  have step: "sdio_verify_rx_checksums m maxcount s = sdio_verify_rx_checksums m (maxcount - 1) s2"
    using lt mc lo256
    by (subst sdio_verify_rx_checksums.simps)
       (simp add: Let_def s2_def rx_block_mismatch_def rx_block_crc_def SDIO_MAX_BLOCKS_def
          word_succ_eq_1_iff)
  have f2: "blocks_checksumed s2 = ?c + 1" "blocks_done s2 = blocks_done s"
           "data_buf s2 = data_buf s" "block_checksums s2 = block_checksums s"
    by (simp_all add: s2_def)
  have hi2: "verify_upto (maxcount - 1) s2 = ?hi"
  proof (cases "Suc ?lo < unat (blocks_done s)")
    case True
    then have "blocks_checksumed s2 < blocks_done s2"
      by (simp add: f2 word_less_nat_alt ulo)
    then have "verify_upto (maxcount - 1) s2
        = min (unat (blocks_done s)) (Suc ?lo + (unat maxcount - 1))"
      by (simp add: verify_upto_def f2 ulo umc1)
    with umc show ?thesis by (simp add: hi)
  next
    case False
    then have "\<not> blocks_checksumed s2 < blocks_done s2"
      by (simp add: f2 word_less_nat_alt ulo)
    then have "verify_upto (maxcount - 1) s2 = Suc ?lo"
      by (simp add: verify_upto_def f2 ulo)
    with False lo_lt umc show ?thesis by (simp add: hi)
  qed
  have n2: "n = verify_upto (maxcount - 1) s2 - unat (blocks_checksumed s2)"
    using Suc(2) by (simp add: hi2 f2 ulo)
  have d2: "unat (blocks_done s2) \<le> SDIO_MAX_BLOCKS" using Suc(3) by (simp add: f2)
  have c2: "unat (checksum_errors s2) \<le> unat (blocks_checksumed s2)"
    using Suc(4) by (auto simp add: s2_def ulo ue)
  have "sdio_verify_rx_checksums m (maxcount - 1) s2 = Inr (rx_verified m ?hi s2)"
    using Suc.IH[OF n2 d2 c2] by (simp add: hi2)
  moreover have "rx_verified m ?hi s2 = rx_verified m ?hi s"
  proof -
    have mm: "rx_mismatches m s ?lo ?hi =
        (if rx_block_mismatch m s ?lo then [?lo] else []) @ rx_mismatches m s (Suc ?lo) ?hi"
      using lo_hi by (rule rx_mismatches_step)
    show ?thesis
    proof (cases "rx_block_mismatch m s ?lo")
      case False
      then show ?thesis
        by (simp add: s2_def rx_verified_def Let_def mm ulo rx_mismatches_upd rx_block_crc_upd)
    next
      case True
      show ?thesis
      proof (cases "checksum_errors s = 0")
        case z: True
        then show ?thesis
          using True
          by (simp add: s2_def rx_verified_def Let_def mm ulo rx_mismatches_upd rx_block_crc_upd)
      next
        case nz: False
        then show ?thesis
          using True e1
          by (simp add: s2_def rx_verified_def Let_def mm ulo rx_mismatches_upd rx_block_crc_upd)
      qed
    qed
  qed
  ultimately show ?case using step by simp
qed

lemma sdio_verify_rx_checksums_eq:
  assumes "unat (blocks_done s) \<le> SDIO_MAX_BLOCKS"
      and "unat (checksum_errors s) \<le> unat (blocks_checksumed s)"
  shows "sdio_verify_rx_checksums m maxcount s = Inr (rx_verified m (verify_upto maxcount s) s)"
  using sdio_verify_rx_checksums_aux[OF refl assms] .

lemma sdio_verify_rx_checksums_unfold:
  "sdio_verify_rx_checksums m maxcount s =
     (if blocks_checksumed s < blocks_done s \<and> maxcount > 0
      then (case sdio_verify_rx_checksums_body m s of
              Inl f \<Rightarrow> Inl f
            | Inr s2 \<Rightarrow> sdio_verify_rx_checksums m (maxcount - 1) s2)
      else Inr s)"
  by (subst sdio_verify_rx_checksums.simps)
     (simp add: sdio_verify_rx_checksums_body_def Let_def)


section \<open>Steps of a receive session\<close>

lemma rx_verified_fields:
  "transfer_state (rx_verified m hi s) = transfer_state s"
  "inside_irq_handler (rx_verified m hi s) = inside_irq_handler s"
  "transfer_start_time (rx_verified m hi s) = transfer_start_time s"
  "data_buf (rx_verified m hi s) = data_buf s"
  "blocks_done (rx_verified m hi s) = blocks_done s"
  "total_blocks (rx_verified m hi s) = total_blocks s"
  "block_checksums (rx_verified m hi s) = block_checksums s"
  "dma_busy (rx_verified m hi s) = dma_busy s"
  "dma_addr (rx_verified m hi s) = dma_addr s"
  "dma_irq_flag (rx_verified m hi s) = dma_irq_flag s"
  "data_sm_enabled (rx_verified m hi s) = data_sm_enabled s"
  "data_pins_out (rx_verified m hi s) = data_pins_out s"
  "tx_fifo (rx_verified m hi s) = tx_fifo s"
  "blocks_checksumed (rx_verified m hi s) = of_nat hi"
  "checksum_errors (rx_verified m hi s)
     = checksum_errors s + of_nat (length (rx_mismatches m s (unat (blocks_checksumed s)) hi))"
  by (simp_all add: rx_verified_def Let_def)

lemma length_rx_mismatches: "length (rx_mismatches m s lo hi) \<le> hi - lo"
  unfolding rx_mismatches_def
  by (rule order_trans[OF length_filter_le]) simp

lemma verify_upto_total:
  assumes "rx_inv n s"
  shows "verify_upto (total_blocks s) s = unat (blocks_done s)"
  using assms by (auto simp add: verify_upto_def rx_inv_def word_less_nat_alt min_def)

lemma verify_upto_one:
  "verify_upto 1 s =
     unat (blocks_checksumed s) + (if blocks_checksumed s < blocks_done s then 1 else 0)"
  by (auto simp add: verify_upto_def word_less_nat_alt min_def)

lemma rx_verified_errors_zero:
  assumes "rx_inv n s" and "hi \<le> unat (blocks_done s)"
  shows "checksum_errors (rx_verified m hi s) = 0
     \<longleftrightarrow> checksum_errors s = 0 \<and> rx_mismatches m s (unat (blocks_checksumed s)) hi = []"
proof -
  let ?lo = "unat (blocks_checksumed s)"
  let ?k = "length (rx_mismatches m s ?lo hi)"
  have d: "unat (blocks_done s) \<le> 256" using assms by (simp add: rx_inv_def SDIO_MAX_BLOCKS_def)
  have k: "?k \<le> hi - ?lo" by (rule length_rx_mismatches)
  have e: "unat (checksum_errors s) \<le> ?lo" using assms by (simp add: rx_inv_def)
  have l: "?lo \<le> unat (blocks_done s)" using assms by (simp add: rx_inv_def)
  have uk: "unat (of_nat ?k :: u32) = ?k"
    using k assms(2) d by (simp add: unat_of_nat)
  have "unat (checksum_errors s) + unat (of_nat ?k :: u32) < 2 ^ LENGTH(32)"
    using uk e k l assms(2) d by simp
  then have "unat (checksum_errors s + of_nat ?k) = unat (checksum_errors s) + unat (of_nat ?k :: u32)"
    by (rule unat_add_lem[THEN iffD1])
  then have ue: "unat (checksum_errors s + of_nat ?k) = unat (checksum_errors s) + ?k"
    by (simp only: uk)
  have "checksum_errors (rx_verified m hi s) = 0 \<longleftrightarrow> unat (checksum_errors s + of_nat ?k) = 0"
    by (simp add: rx_verified_fields unat_eq_zero)
  also have "\<dots> \<longleftrightarrow> unat (checksum_errors s) = 0 \<and> ?k = 0" by (simp add: ue)
  also have "\<dots> \<longleftrightarrow> checksum_errors s = 0 \<and> rx_mismatches m s ?lo hi = []"
    by (simp add: unat_eq_zero)
  finally show ?thesis .
qed

lemma rx_poll_by_dispatch:
  "rp2040_sdio_rx_poll ndebug want_bytes e s =
     (case rx_poll_dispatch ndebug e s of
        Inl f \<Rightarrow> Inl f
      | Inr s1 \<Rightarrow>
          if transfer_state s1 = SDIO_IDLE then
            (case sdio_verify_rx_checksums (mem e) (total_blocks s1) s1 of
               Inl f \<Rightarrow> Inl f
             | Inr s2 \<Rightarrow>
                 Inr (if checksum_errors s2 = 0 then SDIO_OK else SDIO_ERR_DATA_CRC,
                      bytes_done want_bytes s1, s2))
          else if millis e - transfer_start_time s1 > 1000 then
            Inr (SDIO_ERR_DATA_TIMEOUT, bytes_done want_bytes s1,
                 s1\<lparr>msgs := msgs s1 @ [DbgRxPollTimeout], dma_busy := False,
                      data_sm_enabled := False, data_pins_out := False,
                      transfer_state := SDIO_IDLE\<rparr>)
          else
            (case sdio_verify_rx_checksums (mem e) 1 s1 of
               Inl f \<Rightarrow> Inl f
             | Inr s2 \<Rightarrow> Inr (SDIO_BUSY, bytes_done want_bytes s1, s2)))"
  by (simp add: rp2040_sdio_rx_poll_def rx_poll_dispatch_def bytes_done_def Let_def
      rp2040_sdio_stop_def split: sum.splits)

lemma rx_poll_after_dispatch:
  assumes disp: "rx_poll_dispatch ndebug e s = Inr s1" and inv: "rx_inv n s1"
  shows "rp2040_sdio_rx_poll ndebug want_bytes e s = Inr
     (if transfer_state s1 = SDIO_IDLE then
        (if checksum_errors s1 = 0
            \<and> rx_mismatches (mem e) s1 (unat (blocks_checksumed s1)) (unat (blocks_done s1)) = []
         then SDIO_OK else SDIO_ERR_DATA_CRC,
         bytes_done want_bytes s1,
         rx_verified (mem e) (unat (blocks_done s1)) s1)
      else if millis e - transfer_start_time s1 > 1000 then
        (SDIO_ERR_DATA_TIMEOUT, bytes_done want_bytes s1,
         s1\<lparr>msgs := msgs s1 @ [DbgRxPollTimeout], dma_busy := False,
              data_sm_enabled := False, data_pins_out := False,
              transfer_state := SDIO_IDLE\<rparr>)
      else
        (SDIO_BUSY, bytes_done want_bytes s1,
         rx_verified (mem e)
           (unat (blocks_checksumed s1) + (if blocks_checksumed s1 < blocks_done s1 then 1 else 0))
           s1))"
proof -
  have d: "unat (blocks_done s1) \<le> SDIO_MAX_BLOCKS"
    and c: "unat (checksum_errors s1) \<le> unat (blocks_checksumed s1)"
    using inv by (simp_all add: rx_inv_def)
  note v = sdio_verify_rx_checksums_eq[OF d c]
  show ?thesis
    using rx_verified_errors_zero[OF inv order_refl, of "mem e"]
    by (simp add: rx_poll_by_dispatch disp v verify_upto_total[OF inv] verify_upto_one)
qed

section \<open>A poll, statement by statement\<close>

text \<open>
  Run without anything in between, the statements of a call do what the function
  \<open>rp2040_sdio_rx_poll\<close> does, and the call returns within \<open>2 * total_blocks + 9\<close>
  statements.
\<close>

lemma rx_poll_exec_verify:
  "call_pc c = At_verify_head idle maxcount \<Longrightarrow> 2 * unat maxcount + 2 \<le> k \<Longrightarrow>
   rx_poll_exec k ndebug c s =
     Some (case sdio_verify_rx_checksums (mem (call_env c)) maxcount s of
             Inl f \<Rightarrow> Inl f
           | Inr s2 \<Rightarrow>
               Inr (if idle then (if checksum_errors s2 = 0 then SDIO_OK else SDIO_ERR_DATA_CRC)
                    else SDIO_BUSY, call_bytes c, s2))"
proof (induction "unat maxcount" arbitrary: maxcount c s k)
  case 0
  then have z: "maxcount = 0" by (simp add: unat_eq_zero)
  from 0(3) have "2 \<le> k" by simp
  then obtain k2 where "k = 2 + k2" using le_Suc_ex by blast
  then have k: "k = Suc (Suc k2)" by simp
  show ?case
    using 0(2)
    by (subst sdio_verify_rx_checksums_unfold) (simp add: k z rx_poll_step_def)
next
  case (Suc n)
  then have pos: "maxcount > 0" by (simp add: word_less_nat_alt)
  have u1: "unat (maxcount - 1) = n"
    using Suc(2) pos by (simp add: unat_minus_one word_greater_zero_iff)
  from Suc(4) Suc(2) have "2 \<le> k" by simp
  then obtain k2 where k0: "k = 2 + k2" using le_Suc_ex by blast
  then have k: "k = Suc (Suc k2)" by simp
  have k2: "2 * n + 2 \<le> k2" using Suc(4) Suc(2) k0 by simp
  show ?case
  proof (cases "blocks_checksumed s < blocks_done s")
    case False
    then show ?thesis
      using Suc(3)
      by (subst sdio_verify_rx_checksums_unfold) (simp add: k rx_poll_step_def)
  next
    case True
    show ?thesis
    proof (cases "sdio_verify_rx_checksums_body (mem (call_env c)) s")
      case (Inl f)
      then show ?thesis
        using Suc(3) True pos
        by (subst sdio_verify_rx_checksums_unfold) (simp add: k rx_poll_step_def)
    next
      case (Inr s1)
      have "rx_poll_exec k2 ndebug (c\<lparr>call_pc := At_verify_head idle (maxcount - 1)\<rparr>) s1 =
         Some (case sdio_verify_rx_checksums (mem (call_env c)) (maxcount - 1) s1 of
             Inl f \<Rightarrow> Inl f
           | Inr s2 \<Rightarrow>
               Inr (if idle then (if checksum_errors s2 = 0 then SDIO_OK else SDIO_ERR_DATA_CRC)
                    else SDIO_BUSY, call_bytes c, s2))"
        using Suc(1)[of "maxcount - 1" "c\<lparr>call_pc := At_verify_head idle (maxcount - 1)\<rparr>" k2 s1]
              u1 k2
        by (simp cong: sum.case_cong)
      then show ?thesis
        using Suc(3) True pos Inr
        by (subst sdio_verify_rx_checksums_unfold) (simp add: k rx_poll_step_def)
    qed
  qed
qed

lemma rx_irq_total_blocks:
  "rp2040_sdio_rx_irq ndebug e s = Inr s1 \<Longrightarrow> total_blocks s1 = total_blocks s"
  by (auto simp add: rp2040_sdio_rx_irq_def sdio_start_next_block_rx_def Let_def
      split: if_splits)

lemma rx_poll_step_dispatch:
  "call_pc c = At_dispatch \<Longrightarrow>
   rx_poll_step ndebug c s =
     (case rx_poll_dispatch ndebug (call_env c) s of
        Inl f \<Rightarrow> Inl f
      | Inr s1 \<Rightarrow> Inr (Inl (c\<lparr>call_pc := At_store\<rparr>), s1))"
  by (simp add: rx_poll_step_def rx_poll_dispatch_def)

lemma rx_poll_exec_eq:
  assumes "2 * unat (total_blocks s) + 9 \<le> k"
  shows "rx_poll_exec k ndebug (rx_poll_entry want_bytes e) s
           = Some (rp2040_sdio_rx_poll ndebug want_bytes e s)"
proof (cases "rx_poll_dispatch ndebug e s")
  case (Inl f)
  from assms obtain k1 where k: "k = Suc k1" by (cases k) simp_all
  show ?thesis
    using Inl
    by (simp add: k rx_poll_step_dispatch rx_poll_entry_def rx_poll_by_dispatch)
next
  case (Inr s1)
  have t: "total_blocks s1 = total_blocks s"
    using Inr rx_irq_total_blocks[of ndebug e s s1]
    by (auto simp add: rx_poll_dispatch_def split: if_splits)
  from assms have "4 \<le> k" by simp
  then obtain k4 where k0: "k = 4 + k4" using le_Suc_ex by blast
  then have k: "k = Suc (Suc (Suc (Suc k4)))" by simp
  have k4: "2 * unat (total_blocks s) + 5 \<le> k4" using assms k0 by simp
  define c where "c = \<lparr>call_pc = At_state_test, call_want = want_bytes,
                        call_bytes = bytes_done want_bytes s1, call_env = e\<rparr>"
  have e2: "rx_poll_exec (Suc (Suc (Suc k4))) ndebug
              \<lparr>call_pc = At_store, call_want = want_bytes, call_bytes = None, call_env = e\<rparr> s1
              = rx_poll_exec (Suc (Suc k4)) ndebug c s1"
    by (simp add: rx_poll_step_def c_def bytes_done_def)
  have e3: "rx_poll_exec k ndebug (rx_poll_entry want_bytes e) s
              = rx_poll_exec (Suc (Suc k4)) ndebug c s1"
    using Inr e2
    by (simp add: k rx_poll_step_dispatch rx_poll_entry_def)
  show ?thesis
  proof (cases "transfer_state s1 = SDIO_IDLE")
    case True
    have v: "rx_poll_exec (Suc k4) ndebug (c\<lparr>call_pc := At_verify_head True (total_blocks s1)\<rparr>) s1
        = Some (case sdio_verify_rx_checksums (mem e) (total_blocks s1) s1 of
             Inl f \<Rightarrow> Inl f
           | Inr s2 \<Rightarrow>
               Inr (if checksum_errors s2 = 0 then SDIO_OK else SDIO_ERR_DATA_CRC,
                    bytes_done want_bytes s1, s2))"
      using rx_poll_exec_verify[of "c\<lparr>call_pc := At_verify_head True (total_blocks s1)\<rparr>"
              True "total_blocks s1" "Suc k4" ndebug s1] k4
      by (simp add: t c_def cong: sum.case_cong)
    have e4: "rx_poll_exec (Suc (Suc k4)) ndebug c s1
        = rx_poll_exec (Suc k4) ndebug (c\<lparr>call_pc := At_verify_head True (total_blocks s1)\<rparr>) s1"
      using True by (simp add: rx_poll_step_def c_def)
    have rhs: "rp2040_sdio_rx_poll ndebug want_bytes e s
        = (case sdio_verify_rx_checksums (mem e) (total_blocks s1) s1 of
             Inl f \<Rightarrow> Inl f
           | Inr s2 \<Rightarrow>
               Inr (if checksum_errors s2 = 0 then SDIO_OK else SDIO_ERR_DATA_CRC,
                    bytes_done want_bytes s1, s2))"
      using True Inr by (simp add: rx_poll_by_dispatch)
    show ?thesis by (simp only: e3 e4 v rhs)
  next
    case False
    have e4: "rx_poll_exec (Suc (Suc k4)) ndebug c s1
        = rx_poll_exec (Suc k4) ndebug (c\<lparr>call_pc := At_time_test\<rparr>) s1"
      using False by (simp add: rx_poll_step_def c_def)
    show ?thesis
    proof (cases "millis e - transfer_start_time s1 > 1000")
      case late: True
      from k4 have "5 \<le> k4" by simp
      then obtain k9 where "k4 = 5 + k9" using le_Suc_ex by blast
      then have k9: "k4 = Suc (Suc (Suc (Suc (Suc k9))))" by simp
      have v: "rx_poll_exec (Suc k4) ndebug (c\<lparr>call_pc := At_time_test\<rparr>) s1
          = Some (Inr (SDIO_ERR_DATA_TIMEOUT, bytes_done want_bytes s1,
                 s1\<lparr>msgs := msgs s1 @ [DbgRxPollTimeout], dma_busy := False,
                      data_sm_enabled := False, data_pins_out := False,
                      transfer_state := SDIO_IDLE\<rparr>))"
        using late by (simp add: rx_poll_step_def c_def k9)
      have rhs: "rp2040_sdio_rx_poll ndebug want_bytes e s
          = Inr (SDIO_ERR_DATA_TIMEOUT, bytes_done want_bytes s1,
                 s1\<lparr>msgs := msgs s1 @ [DbgRxPollTimeout], dma_busy := False,
                      data_sm_enabled := False, data_pins_out := False,
                      transfer_state := SDIO_IDLE\<rparr>)"
        using False late Inr by (simp add: rx_poll_by_dispatch)
      show ?thesis by (simp only: e3 e4 v rhs)
    next
      case early: False
      from k4 have k5: "4 \<le> k4" by simp
      have v: "rx_poll_exec k4 ndebug (c\<lparr>call_pc := At_verify_head False 1\<rparr>) s1
        = Some (case sdio_verify_rx_checksums (mem e) 1 s1 of
             Inl f \<Rightarrow> Inl f
           | Inr s2 \<Rightarrow> Inr (SDIO_BUSY, bytes_done want_bytes s1, s2))"
        using rx_poll_exec_verify[of "c\<lparr>call_pc := At_verify_head False 1\<rparr>"
              False 1 k4 ndebug s1] k5
        by (simp add: c_def cong: sum.case_cong)
      have e5: "rx_poll_exec (Suc k4) ndebug (c\<lparr>call_pc := At_time_test\<rparr>) s1
          = rx_poll_exec k4 ndebug (c\<lparr>call_pc := At_verify_head False 1\<rparr>) s1"
        using early by (simp add: rx_poll_step_def c_def)
      have rhs: "rp2040_sdio_rx_poll ndebug want_bytes e s
          = (case sdio_verify_rx_checksums (mem e) 1 s1 of
               Inl f \<Rightarrow> Inl f
             | Inr s2 \<Rightarrow> Inr (SDIO_BUSY, bytes_done want_bytes s1, s2))"
        using False early Inr by (simp add: rx_poll_by_dispatch)
      show ?thesis by (simp only: e3 e4 e5 v rhs)
    qed
  qed
qed

text \<open>
  Every action of a schedule keeps the session within \<open>rx_config_inv\<close> and does what
  \<open>rx_action_ok\<close> says.
\<close>

lemma rx_irq_fires:
  assumes inv: "rx_session_inv n t0 p x" and nb: "\<not> dma_busy x"
      and d: "unat (blocks_done x) < n" and st: "\<not> p \<longrightarrow> transfer_state x = SDIO_RX"
  shows "\<exists>s'. rp2040_sdio_rx_irq ndebug e x = Inr s' \<and> rx_session_inv n t0 p s'
            \<and> rx_handler_fired n e x s'
            \<and> data_buf s' = data_buf x \<and> data_pins_out s' = data_pins_out x
            \<and> (transfer_state x = SDIO_IDLE \<longrightarrow> transfer_state s' = SDIO_IDLE)"
proof -
  have n: "n \<le> 256" "unat (total_blocks x) = n"
    using inv by (simp_all add: rx_session_inv_def SDIO_MAX_BLOCKS_def)
  have u: "unat (blocks_done x + 1) = Suc (unat (blocks_done x))"
    using d n unat_add_lem[of "blocks_done x" 1] by simp
  define s1 where "s1 = (if fifo_wait (fifo_level e) 2 0 1000 then x\<lparr>dma_irq_flag := False\<rparr>
                else x\<lparr>dma_irq_flag := False, msgs := msgs x @ [LogRxIrqCrcTimeout]\<rparr>)"
  define s2 where "s2 = s1\<lparr>block_checksums := (block_checksums s1)
                           [unat (blocks_done s1) :=
                              push_bit 32 (ucast (fifo_crc0 e)) OR ucast (fifo_crc1 e)],
                         blocks_done := blocks_done s1 + 1\<rparr>"
  have f1: "blocks_done s1 = blocks_done x" "total_blocks s1 = total_blocks x"
    by (simp_all add: s1_def)
  have r: "rp2040_sdio_rx_irq ndebug e x =
             (if blocks_done s2 < total_blocks s2
              then sdio_start_next_block_rx ndebug s2
              else Inr (s2\<lparr>transfer_state := SDIO_IDLE\<rparr>))"
    using d n by (simp add: rp2040_sdio_rx_irq_def Let_def s2_def s1_def SDIO_MAX_BLOCKS_def)
  have c: "blocks_done s2 < total_blocks s2 \<longleftrightarrow> Suc (unat (blocks_done x)) < n"
    by (simp add: s2_def f1 word_less_nat_alt u n)
  show ?thesis
  proof (cases "Suc (unat (blocks_done x)) < n")
    case True
    then show ?thesis
      using inv nb st c
      by (simp add: r sdio_start_next_block_rx_def assert_passes_def s2_def s1_def u
          rx_session_inv_def rx_handler_fired_def)
  next
    case False
    with d have "Suc (unat (blocks_done x)) = n" by simp
    then show ?thesis
      using inv nb st c
      by (simp add: r s2_def s1_def u rx_session_inv_def rx_handler_fired_def)
  qed
qed


lemma rx_call_inv_fired:
  assumes "rx_call_inv t0 h c s" and "dma_busy s"
      and "transfer_state s = SDIO_IDLE \<longrightarrow> transfer_state s' = SDIO_IDLE"
      and "unat (blocks_done s) \<le> unat (blocks_done s')"
      and "blocks_checksumed s' = blocks_checksumed s"
  shows "rx_call_inv t0 h c s'"
  using assms
  by (cases "call_pc c") (auto simp add: rx_call_inv_def word_less_nat_alt)

lemma rx_completion_ok:
  assumes "rx_config_inv n t0 p h (s, call)"
  shows "\<exists>s'. dma_complete ndebug e s = Inr s' \<and> rx_config_inv n t0 p h (s', call)
            \<and> rx_action_ok n t0 p h (s, call) (DmaCompletes e) None (s', call)"
proof -
  have inv: "rx_session_inv n t0 p s" using assms by (simp add: rx_config_inv_def)
  have par: "unat (total_blocks s) = n" "transfer_start_time s = t0" "inside_irq_handler s = p"
            "unat (blocks_done s) \<le> n"
    using inv by (simp_all add: rx_session_inv_def)
  show ?thesis
  proof (cases "dma_busy s")
    case False
    then show ?thesis
      using assms par by (simp add: dma_complete_def rx_action_ok_def)
  next
    case True
    show ?thesis
    proof (cases p)
      case p: True
      let ?s' = "s\<lparr>dma_busy := False, dma_irq_flag := True\<rparr>"
      have 1: "dma_complete ndebug e s = Inr ?s'"
        using True p par by (simp add: dma_complete_def Let_def)
      have 2: "rx_session_inv n t0 p ?s'"
        using inv True p by (simp add: rx_session_inv_def)
      have 3: "rx_call_inv t0 h c ?s'" if "call = Some c" for c
        using assms that by (cases "call_pc c") (auto simp add: rx_config_inv_def rx_call_inv_def)
      show ?thesis
        using 1 2 3 True p par by (simp add: rx_config_inv_def rx_action_ok_def split: option.splits)
    next
      case np: False
      let ?x = "s\<lparr>dma_busy := False, dma_irq_flag := False\<rparr>"
      have rx: "transfer_state s = SDIO_RX" using inv True np by (simp add: rx_session_inv_def)
      have d: "unat (blocks_done s) < n" using inv True by (simp add: rx_session_inv_def)
      have ix: "rx_session_inv n t0 p ?x" using inv by (simp add: rx_session_inv_def)
      from rx_irq_fires[OF ix _ _ _, of ndebug e] d rx
      obtain s' where s': "rp2040_sdio_rx_irq ndebug e ?x = Inr s'" "rx_session_inv n t0 p s'"
          "rx_handler_fired n e ?x s'" "data_buf s' = data_buf ?x"
        by auto
      have 1: "dma_complete ndebug e s = Inr s'"
        using True np par rx s'(1)
        by (simp add: dma_complete_def Let_def rp2040_sdio_dma_irq_def)
      have f: "rx_handler_fired n e s s'"
        using s'(3) by (simp add: rx_handler_fired_def)
      have 3: "rx_call_inv t0 h c s'" if "call = Some c" for c
        using assms that True rx f
        by (intro rx_call_inv_fired[of t0 h c s s'])
           (simp_all add: rx_config_inv_def rx_handler_fired_def)
      have par': "unat (total_blocks s') = n" "transfer_start_time s' = t0"
          "inside_irq_handler s' = p" "unat (blocks_done s') \<le> n"
        using s'(2) by (simp_all add: rx_session_inv_def)
      show ?thesis
        using 1 s'(2) 3 True np par' f s'(4)
        by (simp add: rx_config_inv_def rx_action_ok_def rx_handler_fired_def split: option.splits)
    qed
  qed
qed

lemma unat_blocks_512:
  assumes "d \<le> 256"
  shows "unat (of_nat d * 512 :: u32) = 512 * d"
proof -
  have k: "unat (of_nat d :: u32) = d" using assms by (simp add: unat_of_nat)
  have "unat (of_nat d :: u32) * unat (512 :: u32) < 2 ^ LENGTH(32)" using assms by (simp add: k)
  then have "unat (of_nat d * 512 :: u32) = unat (of_nat d :: u32) * unat (512 :: u32)"
    by (rule unat_mult_lem[THEN iffD1])
  then show ?thesis by (simp add: k)
qed

lemma rx_verify_body_ok:
  assumes inv: "rx_session_inv n t0 p s" and lt: "blocks_checksumed s < blocks_done s"
  shows "\<exists>s'. sdio_verify_rx_checksums_body m s = Inr s' \<and> rx_session_inv n t0 p s'
            \<and> blocks_done s' = blocks_done s \<and> block_checksums s' = block_checksums s
            \<and> dma_irq_flag s' = dma_irq_flag s \<and> dma_addr s' = dma_addr s
            \<and> dma_busy s' = dma_busy s \<and> transfer_state s' = transfer_state s
            \<and> data_buf s' = data_buf s"
proof -
  have l: "unat (blocks_checksumed s) < unat (blocks_done s)"
    using lt by (simp add: word_less_nat_alt)
  have d: "unat (blocks_done s) \<le> 256"
    using inv by (simp add: rx_session_inv_def SDIO_MAX_BLOCKS_def)
  have e: "unat (checksum_errors s) \<le> unat (blocks_checksumed s)"
    using inv by (simp add: rx_session_inv_def)
  have uc: "unat (blocks_checksumed s + 1) = Suc (unat (blocks_checksumed s))"
    using l d unat_add_lem[of "blocks_checksumed s" 1] by simp
  have ue: "unat (checksum_errors s + 1) = Suc (unat (checksum_errors s))"
    using l d e unat_add_lem[of "checksum_errors s" 1] by simp
  show ?thesis
    using inv l d e
    by (simp add: sdio_verify_rx_checksums_body_def Let_def SDIO_MAX_BLOCKS_def
        rx_session_inv_def uc ue)
qed

lemma rx_poll_runs_ok:
  assumes inv: "rx_session_inv n t0 p s" and ci: "rx_call_inv t0 h c s"
  shows "\<exists>out cfg'. rx_action_step ndebug PollRuns (s, Some c) = Inr (out, cfg')
            \<and> rx_config_inv n t0 p (rx_history_next h (s, Some c) PollRuns) cfg'
            \<and> rx_action_ok n t0 p h (s, Some c) PollRuns out cfg'"
proof -
  have par: "unat (total_blocks s) = n" "transfer_start_time s = t0" "inside_irq_handler s = p"
            "unat (blocks_done s) \<le> n" "n \<le> 256"
    using inv by (simp_all add: rx_session_inv_def SDIO_MAX_BLOCKS_def)
  show ?thesis
  proof (cases "call_pc c")
    case At_dispatch
    show ?thesis
    proof (cases "p \<and> dma_irq_flag s")
      case False
      then show ?thesis
        using At_dispatch inv ci par
        by (auto simp add: rx_action_step_def rx_poll_step_def rx_config_inv_def rx_call_inv_def
            rx_action_ok_def rx_history_next_def rx_poll_keeps_def)
    next
      case True
      then have nb: "\<not> dma_busy s" and d: "unat (blocks_done s) < n"
        using inv by (auto simp add: rx_session_inv_def)
      from rx_irq_fires[OF inv nb d, of ndebug "call_env c"] True
      obtain s' where s': "rp2040_sdio_rx_irq ndebug (call_env c) s = Inr s'"
          "rx_session_inv n t0 p s'" "rx_handler_fired n (call_env c) s s'"
          "data_buf s' = data_buf s"
          "transfer_state s = SDIO_IDLE \<longrightarrow> transfer_state s' = SDIO_IDLE"
        by auto
      have par': "unat (total_blocks s') = n" "transfer_start_time s' = t0"
          "inside_irq_handler s' = p" "unat (blocks_done s') \<le> n"
        using s'(2) by (simp_all add: rx_session_inv_def)
      show ?thesis
        using At_dispatch True ci par s' par'
        by (simp add: rx_action_step_def rx_poll_step_def rx_config_inv_def rx_call_inv_def
            rx_action_ok_def rx_history_next_def rx_handler_fired_def)
    qed
  next
    case At_store
    then show ?thesis
      using inv ci par
      by (simp add: rx_action_step_def rx_poll_step_def rx_config_inv_def rx_call_inv_def
          rx_action_ok_def rx_history_next_def rx_poll_keeps_def)
  next
    case At_state_test
    then show ?thesis
      using inv ci par
      by (auto simp add: rx_action_step_def rx_poll_step_def rx_config_inv_def rx_call_inv_def
          rx_action_ok_def rx_history_next_def rx_poll_keeps_def rx_session_inv_def)
  next
    case (At_verify_head idle maxcount)
    show ?thesis
    proof (cases "blocks_checksumed s < blocks_done s \<and> maxcount > 0")
      case True
      then have u: "unat (maxcount - 1) < unat maxcount"
        by (simp add: unat_minus_one word_greater_zero_iff unat_gt_0)
      have st: "rx_poll_step ndebug c s
                  = Inr (Inl (c\<lparr>call_pc := At_verify_body idle (maxcount - 1)\<rparr>), s)"
        using At_verify_head True by (simp add: rx_poll_step_def)
      show ?thesis
        using At_verify_head True inv ci par u
        by (simp add: rx_action_step_def st rx_config_inv_def rx_call_inv_def
            rx_action_ok_def rx_history_next_def rx_poll_keeps_def)
    next
      case False
      show ?thesis
      proof (cases idle)
        case idle: True
        have st: "rx_poll_step ndebug c s = Inr (Inl (c\<lparr>call_pc := At_errors_test\<rparr>), s)"
          using At_verify_head False idle by (auto simp add: rx_poll_step_def)
        show ?thesis
          using At_verify_head idle inv ci par
          by (simp add: rx_action_step_def st rx_config_inv_def rx_call_inv_def
              rx_action_ok_def rx_history_next_def rx_poll_keeps_def)
      next
        case busy: False
        have b: "unat (of_nat (done_at_store h) * 512 :: u32) = 512 * done_at_store h"
          if "done_at_store h \<le> unat (blocks_done s)"
          using that par by (intro unat_blocks_512) simp
        have st: "rx_poll_step ndebug c s = Inr (Inr (SDIO_BUSY, call_bytes c), s)"
          using At_verify_head False busy by (auto simp add: rx_poll_step_def)
        have ni: "\<not> idle_at_call h"
          using At_verify_head busy ci by (auto simp add: rx_call_inv_def)
        show ?thesis
          using At_verify_head busy inv ci par b ni
          by (simp add: rx_action_step_def st rx_config_inv_def rx_call_inv_def
              rx_action_ok_def rx_history_next_def rx_poll_keeps_def rx_return_ok_def)
      qed
    qed
  next
    case (At_verify_body idle maxcount)
    then have lt: "blocks_checksumed s < blocks_done s"
      using ci by (simp add: rx_call_inv_def)
    from rx_verify_body_ok[OF inv lt, of "mem (call_env c)"]
    obtain s' where s': "sdio_verify_rx_checksums_body (mem (call_env c)) s = Inr s'"
        "rx_session_inv n t0 p s'" "blocks_done s' = blocks_done s"
        "block_checksums s' = block_checksums s" "dma_irq_flag s' = dma_irq_flag s"
        "dma_addr s' = dma_addr s" "dma_busy s' = dma_busy s"
        "transfer_state s' = transfer_state s" "data_buf s' = data_buf s"
      by auto
    have par': "unat (total_blocks s') = n" "transfer_start_time s' = t0"
        "inside_irq_handler s' = p"
      using s'(2) by (simp_all add: rx_session_inv_def)
    show ?thesis
      using At_verify_body ci par s' par'
      by (simp add: rx_action_step_def rx_poll_step_def rx_config_inv_def rx_call_inv_def
          rx_action_ok_def rx_history_next_def rx_poll_keeps_def)
  next
    case At_errors_test
    have b: "unat (of_nat (done_at_store h) * 512 :: u32) = 512 * done_at_store h"
      if "done_at_store h \<le> unat (blocks_done s)"
      using that par by (intro unat_blocks_512) simp
    show ?thesis
      using At_errors_test inv ci par b
      by (auto simp add: rx_action_step_def rx_poll_step_def rx_config_inv_def rx_call_inv_def
          rx_action_ok_def rx_history_next_def rx_poll_keeps_def rx_return_ok_def)
  next
    case At_time_test
    then show ?thesis
      using inv ci par
      by (auto simp add: rx_action_step_def rx_poll_step_def rx_config_inv_def rx_call_inv_def
          rx_action_ok_def rx_history_next_def rx_poll_keeps_def)
  next
    case At_timeout_log
    then show ?thesis
      using inv ci par
      by (auto simp add: rx_action_step_def rx_poll_step_def rx_config_inv_def rx_call_inv_def
          rx_action_ok_def rx_history_next_def rx_poll_keeps_def rx_session_inv_def)
  next
    case At_stop_abort
    then show ?thesis
      using inv ci par
      by (auto simp add: rx_action_step_def rx_poll_step_def rx_config_inv_def rx_call_inv_def
          rx_action_ok_def rx_history_next_def rx_poll_keeps_def rx_session_inv_def)
  next
    case At_stop_sm
    then show ?thesis
      using inv ci par
      by (auto simp add: rx_action_step_def rx_poll_step_def rx_config_inv_def rx_call_inv_def
          rx_action_ok_def rx_history_next_def rx_poll_keeps_def rx_session_inv_def)
  next
    case At_stop_pins
    then show ?thesis
      using inv ci par
      by (auto simp add: rx_action_step_def rx_poll_step_def rx_config_inv_def rx_call_inv_def
          rx_action_ok_def rx_history_next_def rx_poll_keeps_def rx_session_inv_def)
  next
    case At_stop_idle
    have b: "unat (of_nat (done_at_store h) * 512 :: u32) = 512 * done_at_store h"
      if "done_at_store h \<le> unat (blocks_done s)"
      using that par by (intro unat_blocks_512) simp
    show ?thesis
      using At_stop_idle inv ci par b
      by (auto simp add: rx_action_step_def rx_poll_step_def rx_config_inv_def rx_call_inv_def
          rx_action_ok_def rx_history_next_def rx_poll_keeps_def rx_return_ok_def
          rx_session_inv_def engine_stopped_def)
  qed
qed

lemma rx_action_step_ok:
  assumes "rx_config_inv n t0 p h cfg"
  shows "\<exists>out cfg'. rx_action_step ndebug a cfg = Inr (out, cfg')
            \<and> rx_config_inv n t0 p (rx_history_next h cfg a) cfg'
            \<and> rx_action_ok n t0 p h cfg a out cfg'"
proof -
  obtain s call where cfg: "cfg = (s, call)" by (cases cfg)
  have inv: "rx_session_inv n t0 p s" using assms by (simp add: rx_config_inv_def cfg)
  have par: "unat (total_blocks s) = n" "transfer_start_time s = t0" "inside_irq_handler s = p"
            "unat (blocks_done s) \<le> n"
    using inv by (simp_all add: rx_session_inv_def)
  show ?thesis
  proof (cases a)
    case (DmaCompletes e)
    from rx_completion_ok[OF assms[unfolded cfg], of ndebug e]
    obtain s' where "dma_complete ndebug e s = Inr s'" "rx_config_inv n t0 p h (s', call)"
        "rx_action_ok n t0 p h (s, call) (DmaCompletes e) None (s', call)"
      by auto
    then show ?thesis
      using DmaCompletes by (simp add: cfg rx_action_step_def rx_history_next_def)
  next
    case (PollCalled want_bytes e)
    show ?thesis
    proof (cases call)
      case None
      then show ?thesis
        using PollCalled inv par
        by (simp add: cfg rx_action_step_def rx_history_next_def rx_config_inv_def
            rx_call_inv_def rx_poll_entry_def rx_action_ok_def)
    next
      case (Some c)
      then show ?thesis
        using PollCalled assms par
        by (simp add: cfg rx_action_step_def rx_history_next_def rx_config_inv_def
            rx_action_ok_def)
    qed
  next
    case PollRuns
    show ?thesis
    proof (cases call)
      case None
      then show ?thesis
        using PollRuns assms par
        by (simp add: cfg rx_action_step_def rx_history_next_def rx_config_inv_def
            rx_action_ok_def)
    next
      case (Some c)
      then have ci: "rx_call_inv t0 h c s" using assms by (simp add: rx_config_inv_def cfg)
      from rx_poll_runs_ok[OF inv ci, of ndebug]
      show ?thesis using PollRuns Some by (simp add: cfg)
    qed
  qed
qed

lemma rx_actions_run_ok:
  assumes "rx_config_inv n t0 p h cfg"
  shows "\<exists>tr. rx_actions_run ndebug acts cfg = Inr tr \<and> rx_schedule_ok n t0 p h cfg acts tr"
  using assms
proof (induction acts arbitrary: h cfg)
  case Nil
  show ?case by simp
next
  case (Cons a acts)
  from rx_action_step_ok[OF Cons.prems, of ndebug a]
  obtain out cfg' where st: "rx_action_step ndebug a cfg = Inr (out, cfg')"
      "rx_config_inv n t0 p (rx_history_next h cfg a) cfg'"
      "rx_action_ok n t0 p h cfg a out cfg'"
    by auto
  from Cons.IH[OF st(2)]
  obtain tr where tr: "rx_actions_run ndebug acts cfg' = Inr tr"
      "rx_schedule_ok n t0 p (rx_history_next h cfg a) cfg' acts tr"
    by auto
  have "rx_actions_run ndebug (a # acts) cfg = Inr ((out, cfg') # tr)"
    using st(1) tr(1) by simp
  then show ?case using st(3) tr(2) by simp
qed

lemma rx_start_session_inv:
  assumes "1 \<le> unat num_blocks" and "unat num_blocks \<le> SDIO_MAX_BLOCKS"
      and "ndebug \<or> buffer AND 3 = 0" and "\<not> dma_irq_flag s"
  shows "\<exists>s1. rp2040_sdio_rx_start ndebug buffer num_blocks e s = Inr (SDIO_OK, s1)
            \<and> rx_session_inv (unat num_blocks) (millis e) (icsr_vectactive e \<noteq> 0) s1
            \<and> blocks_done s1 = 0 \<and> transfer_state s1 = SDIO_RX
            \<and> dma_busy s1 \<and> dma_addr s1 = buffer"
proof -
  have "0 < num_blocks" using assms(1) by (simp add: word_less_nat_alt)
  then show ?thesis
    using assms
    by (auto simp add: rp2040_sdio_rx_start_def sdio_start_next_block_rx_def assert_passes_def
        Let_def rx_session_inv_def)
qed


text \<open>
  A call in progress returns once the schedule has given it as many statements as its
  rank, whatever else the schedule holds.
\<close>

lemma rx_is_run_simps:
  "rx_is_run (DmaCompletes e) = False" "rx_is_run (PollCalled w e) = False"
  "rx_is_run PollRuns = True"
  by (simp_all add: rx_is_run_def)

lemma rx_poll_rank_pos: "0 < rx_poll_rank n pc"
  by (cases pc) simp_all

lemma rx_call_returns:
  assumes "rx_config_inv n t0 p h (s, Some c)"
      and "rx_poll_rank n (call_pc c) \<le> length (filter rx_is_run acts)"
  shows "\<exists>tr. rx_actions_run ndebug acts (s, Some c) = Inr tr \<and> (\<exists>x \<in> set tr. fst x \<noteq> None)"
  using assms
proof (induction acts arbitrary: h s c)
  case Nil
  then show ?case using rx_poll_rank_pos[of n "call_pc c"] by simp
next
  case (Cons a acts)
  from rx_action_step_ok[OF Cons.prems(1), of ndebug a]
  obtain out cfg' where st: "rx_action_step ndebug a (s, Some c) = Inr (out, cfg')"
      "rx_config_inv n t0 p (rx_history_next h (s, Some c) a) cfg'"
      "rx_action_ok n t0 p h (s, Some c) a out cfg'"
    by auto
  from rx_actions_run_ok[OF st(2), of ndebug acts]
  obtain tr where tr: "rx_actions_run ndebug acts cfg' = Inr tr" by auto
  have run: "rx_actions_run ndebug (a # acts) (s, Some c) = Inr ((out, cfg') # tr)"
    using st(1) tr by simp
  show ?case
  proof (cases out)
    case (Some r)
    then show ?thesis using run by simp
  next
    case None
    have "\<exists>c'. snd cfg' = Some c'
            \<and> rx_poll_rank n (call_pc c') \<le> length (filter rx_is_run acts)"
    proof (cases a)
      case (DmaCompletes e)
      then show ?thesis
        using st(3) Cons.prems(2) by (simp add: rx_action_ok_def rx_is_run_simps)
    next
      case (PollCalled w e)
      then show ?thesis
        using st(3) Cons.prems(2) by (simp add: rx_action_ok_def rx_is_run_simps)
    next
      case PollRuns
      then show ?thesis
        using st(3) Cons.prems(2) None
        by (auto simp add: rx_action_ok_def rx_is_run_simps split: option.splits)
    qed
    then obtain c' where c': "snd cfg' = Some c'"
        "rx_poll_rank n (call_pc c') \<le> length (filter rx_is_run acts)"
      by auto
    have i': "rx_config_inv n t0 p (rx_history_next h (s, Some c) a) (fst cfg', Some c')"
      using st(2) c'(1) by (metis prod.collapse)
    from Cons.IH[OF i' c'(2)]
    obtain tr' where "rx_actions_run ndebug acts (fst cfg', Some c') = Inr tr'"
        "\<exists>x \<in> set tr'. fst x \<noteq> None"
      by auto
    moreover have "cfg' = (fst cfg', Some c')" using c'(1) by (metis prod.collapse)
    ultimately show ?thesis using run tr by auto
  qed
qed

lemma rx_inv_session_inv:
  "rx_inv n s \<Longrightarrow> rx_session_inv n (transfer_start_time s) (inside_irq_handler s) s"
  by (auto simp add: rx_inv_def rx_session_inv_def)


text \<open>
  The progress of a session does not depend on the data: the handler, a completion, the
  loop body, every statement of a poll and every schedule go the same way for two
  states with the same progress and two environments with the same timing.
\<close>

lemma rx_irq_progress:
  assumes "rx_progress s = rx_progress s'" and "fifo_level e = fifo_level e'"
  shows "map_sum id rx_progress (rp2040_sdio_rx_irq ndebug e s)
           = map_sum id rx_progress (rp2040_sdio_rx_irq ndebug e' s')"
  using assms
  by (simp add: rx_progress_def rp2040_sdio_rx_irq_def Let_def sdio_start_next_block_rx_def)

lemma tx_irq_progress:
  assumes "rx_progress s = rx_progress s'" and "fifo_level e = fifo_level e'"
  shows "map_sum id rx_progress (rp2040_sdio_tx_irq ndebug e s)
           = map_sum id rx_progress (rp2040_sdio_tx_irq ndebug e' s')"
  using assms
  by (simp add: rx_progress_def rp2040_sdio_tx_irq_def Let_def sdio_start_next_block_tx_def)

lemma dma_complete_progress:
  assumes "rx_progress s = rx_progress s'" and "fifo_level e = fifo_level e'"
  shows "map_sum id rx_progress (dma_complete ndebug e s)
           = map_sum id rx_progress (dma_complete ndebug e' s')"
proof -
  have f: "dma_busy s = dma_busy s'" "inside_irq_handler s = inside_irq_handler s'"
          "transfer_state s = transfer_state s'"
    using assms(1) by (simp_all add: rx_progress_def)
  have p: "rx_progress (s\<lparr>dma_busy := False, dma_irq_flag := b\<rparr>)
             = rx_progress (s'\<lparr>dma_busy := False, dma_irq_flag := b\<rparr>)" for b
    using assms(1) by (simp add: rx_progress_def)
  show ?thesis
    using p[of True] p[of False]
          rx_irq_progress[OF p[of False] assms(2), of ndebug]
          tx_irq_progress[OF p[of False] assms(2), of ndebug]
    by (simp add: dma_complete_def Let_def rp2040_sdio_dma_irq_def f assms(1))
qed

lemma verify_body_progress:
  assumes "rx_progress s = rx_progress s'"
  shows "map_sum id rx_progress (sdio_verify_rx_checksums_body m s)
           = map_sum id rx_progress (sdio_verify_rx_checksums_body m' s')"
  using assms
  by (simp add: rx_progress_def sdio_verify_rx_checksums_body_def Let_def)


lemma rx_poll_step_progress:
  assumes s: "rx_progress s = rx_progress s'" and c: "rx_call_progress c = rx_call_progress c'"
  shows "map_sum id (\<lambda>x. (map_sum rx_call_progress rx_result_progress (fst x), rx_progress (snd x)))
           (rx_poll_step ndebug c s)
         = map_sum id (\<lambda>x. (map_sum rx_call_progress rx_result_progress (fst x), rx_progress (snd x)))
           (rx_poll_step ndebug c' s')"
proof -
  have fc: "call_pc c = call_pc c'" "call_want c = call_want c'" "call_bytes c = call_bytes c'"
           "millis (call_env c) = millis (call_env c')"
           "fifo_level (call_env c) = fifo_level (call_env c')"
           "icsr_vectactive (call_env c) = icsr_vectactive (call_env c')"
    using c by (simp_all add: rx_call_progress_def env_timing_def)
  have fs: "transfer_state s = transfer_state s'" "inside_irq_handler s = inside_irq_handler s'"
           "transfer_start_time s = transfer_start_time s'" "blocks_done s = blocks_done s'"
           "total_blocks s = total_blocks s'" "blocks_checksumed s = blocks_checksumed s'"
           "dma_irq_flag s = dma_irq_flag s'"
    using s by (simp_all add: rx_progress_def)
  have cp: "rx_call_progress (c\<lparr>call_pc := pc\<rparr>) = rx_call_progress (c'\<lparr>call_pc := pc\<rparr>)" for pc
    using c by (simp add: rx_call_progress_def)
  show ?thesis
  proof (cases "call_pc c'")
    case At_dispatch
    show ?thesis
    proof (cases "inside_irq_handler s' \<and> dma_irq_flag s'")
      case True
      from rx_irq_progress[OF s fc(5), of ndebug]
      show ?thesis
        using At_dispatch True cp
        by (cases "rp2040_sdio_rx_irq ndebug (call_env c) s";
            cases "rp2040_sdio_rx_irq ndebug (call_env c') s'")
           (simp_all add: rx_poll_step_def fc(1) fs)
    next
      case False
      then show ?thesis
        using At_dispatch s cp by (auto simp add: rx_poll_step_def fc(1) fs)
    qed
  next
    case At_store
    then show ?thesis
      using s c by (simp add: rx_poll_step_def fc fs rx_call_progress_def)
  next
    case At_state_test
    then show ?thesis
      using s cp by (simp add: rx_poll_step_def fc(1) fs)
  next
    case (At_verify_head idle maxcount)
    then show ?thesis
      using s cp by (simp add: rx_poll_step_def fc fs rx_result_progress_def)
  next
    case (At_verify_body idle maxcount)
    from verify_body_progress[OF s, of "mem (call_env c)" "mem (call_env c')"]
    show ?thesis
      using At_verify_body cp
      by (cases "sdio_verify_rx_checksums_body (mem (call_env c)) s";
          cases "sdio_verify_rx_checksums_body (mem (call_env c')) s'")
         (simp_all add: rx_poll_step_def fc(1))
  next
    case At_errors_test
    then show ?thesis
      using s by (simp add: rx_poll_step_def fc fs rx_result_progress_def status_up_to_crc_def)
  next
    case At_time_test
    then show ?thesis
      using s cp by (simp add: rx_poll_step_def fc fs)
  next
    case At_timeout_log
    then show ?thesis
      using s cp by (simp add: rx_poll_step_def fc(1)) (simp add: rx_progress_def)
  next
    case At_stop_abort
    then show ?thesis
      using s cp by (simp add: rx_poll_step_def fc(1)) (simp add: rx_progress_def)
  next
    case At_stop_sm
    then show ?thesis
      using s cp by (simp add: rx_poll_step_def fc(1)) (simp add: rx_progress_def)
  next
    case At_stop_pins
    then show ?thesis
      using s cp by (simp add: rx_poll_step_def fc(1)) (simp add: rx_progress_def)
  next
    case At_stop_idle
    then show ?thesis
      using s by (simp add: rx_poll_step_def fc rx_result_progress_def) (simp add: rx_progress_def)
  qed
qed

lemma rx_action_step_progress:
  assumes s: "rx_progress (fst cfg) = rx_progress (fst cfg')"
      and c: "map_option rx_call_progress (snd cfg) = map_option rx_call_progress (snd cfg')"
      and a: "rx_action_same a a'"
  shows "map_sum id rx_output_progress (rx_action_step ndebug a cfg)
           = map_sum id rx_output_progress (rx_action_step ndebug a' cfg')"
proof (cases a)
  case (DmaCompletes e)
  with a obtain e' where a': "a' = DmaCompletes e'" and t: "env_timing e = env_timing e'"
    by (cases a') (simp_all add: rx_action_same_def)
  from t have l: "fifo_level e = fifo_level e'" by (simp add: env_timing_def)
  from dma_complete_progress[OF s l, of ndebug]
  show ?thesis
    using c
    by (cases "dma_complete ndebug e (fst cfg)"; cases "dma_complete ndebug e' (fst cfg')")
       (simp_all add: DmaCompletes a' rx_action_step_def rx_output_progress_def)
next
  case (PollCalled w e)
  with a obtain e' where a': "a' = PollCalled w e'" and t: "env_timing e = env_timing e'"
    by (cases a') (simp_all add: rx_action_same_def)
  show ?thesis
    using s c t
    by (cases "snd cfg"; cases "snd cfg'")
       (simp_all add: PollCalled a' rx_action_step_def rx_output_progress_def
          rx_call_progress_def rx_poll_entry_def)
next
  case PollRuns
  with a have a': "a' = PollRuns" by (cases a') (simp_all add: rx_action_same_def)
  show ?thesis
  proof (cases "snd cfg")
    case None
    then have "snd cfg' = None" using c by simp
    then show ?thesis
      using None s by (simp add: PollRuns a' rx_action_step_def rx_output_progress_def)
  next
    case (Some x)
    then obtain x' where x': "snd cfg' = Some x'" and cx: "rx_call_progress x = rx_call_progress x'"
      using c by (cases "snd cfg'") simp_all
    from rx_poll_step_progress[OF s cx, of ndebug]
    show ?thesis
      by (cases "rx_poll_step ndebug x (fst cfg)"; cases "rx_poll_step ndebug x' (fst cfg')")
         (auto simp add: PollRuns a' Some x' rx_action_step_def rx_output_progress_def
            split: sum.splits)
  qed
qed

lemma rx_actions_run_progress:
  assumes "list_all2 rx_action_same acts acts'"
      and "rx_progress (fst cfg) = rx_progress (fst cfg')"
      and "map_option rx_call_progress (snd cfg) = map_option rx_call_progress (snd cfg')"
  shows "map_sum id (map rx_output_progress) (rx_actions_run ndebug acts cfg)
           = map_sum id (map rx_output_progress) (rx_actions_run ndebug acts' cfg')"
  using assms
proof (induction acts acts' arbitrary: cfg cfg' rule: list_all2_induct)
  case Nil
  show ?case by simp
next
  case (Cons a as a' as')
  note st = rx_action_step_progress[OF Cons.prems(1,2) Cons.hyps(1), of ndebug]
  show ?case
  proof (cases "rx_action_step ndebug a cfg")
    case (Inl f)
    then show ?thesis
      using st by (cases "rx_action_step ndebug a' cfg'") simp_all
  next
    case (Inr x)
    then obtain x' where x': "rx_action_step ndebug a' cfg' = Inr x'"
        and xx: "rx_output_progress x = rx_output_progress x'"
      using st by (cases "rx_action_step ndebug a' cfg'") simp_all
    have p: "rx_progress (fst (snd x)) = rx_progress (fst (snd x'))"
        "map_option rx_call_progress (snd (snd x)) = map_option rx_call_progress (snd (snd x'))"
      using xx by (simp_all add: rx_output_progress_def)
    note ih = Cons.IH[OF p]
    obtain r1 c1 where x1: "x = (r1, c1)" by (cases x)
    obtain r2 c2 where x2: "x' = (r2, c2)" by (cases x')
    show ?thesis
      using ih xx
      by (cases "rx_actions_run ndebug as c1"; cases "rx_actions_run ndebug as' c2")
         (simp_all add: Inr x' x1 x2)
  qed
qed

section \<open>Steps of a transmit session\<close>

lemma sdio_compute_tx_checksums_none:
  "\<not> blocks_checksumed s < blocks_done s \<Longrightarrow> sdio_compute_tx_checksums m maxcount s = Inr s"
  by (subst sdio_compute_tx_checksums.simps) simp

lemma rp2040_sdio_tx_start_eq:
  "rp2040_sdio_tx_start ndebug buffer num_blocks e s =
     (if \<not> ndebug then Inl AssertionFailed
      else Inr (SDIO_OK,
             s\<lparr>transfer_state := SDIO_TX, transfer_start_time := millis e, data_buf := buffer,
               blocks_done := 0, total_blocks := num_blocks, blocks_checksumed := 0,
               checksum_errors := 0, inside_irq_handler := (icsr_vectactive e \<noteq> 0),
               data_sm_enabled := True, tx_fifo := [], data_pins_out := True,
               dma_busy := True, dma_addr := buffer\<rparr>))"
  by (simp add: rp2040_sdio_tx_start_def Let_def sdio_compute_tx_checksums_none
      sdio_start_next_block_tx_def assert_passes_def)

lemma tx_poll_by_dispatch:
  "rp2040_sdio_tx_poll ndebug want_bytes e s =
     (case tx_poll_dispatch ndebug e s of
        Inl f \<Rightarrow> Inl f
      | Inr s1 \<Rightarrow>
          if transfer_state s1 = SDIO_IDLE then
            Inr (SDIO_OK, bytes_done want_bytes s1,
                 s1\<lparr>data_sm_enabled := False, data_pins_out := False\<rparr>)
          else if millis e - transfer_start_time s1 > 1000 then
            Inr (SDIO_ERR_DATA_TIMEOUT, bytes_done want_bytes s1,
                 s1\<lparr>msgs := msgs s1 @ [DbgTxPollTimeout], dma_busy := False,
                      data_sm_enabled := False, data_pins_out := False,
                      transfer_state := SDIO_IDLE\<rparr>)
          else Inr (SDIO_BUSY, bytes_done want_bytes s1, s1))"
  by (simp add: rp2040_sdio_tx_poll_def tx_poll_dispatch_def bytes_done_def Let_def
      rp2040_sdio_stop_def split: sum.splits)

lemma fifo_wait_ready: "\<not> level k < need \<Longrightarrow> fifo_wait level need k maxwait"
  by (subst fifo_wait.simps) simp

section \<open>Facts about the example states\<close>

lemma read_words_zero: "read_words (\<lambda>a. 0) p n = replicate n 0"
  by (simp add: read_words_def map_replicate_const)

lemma crc16_zero_words: "sdio_crc16_4bit_checksum (replicate n 0) = 0"
  by (simp add: sdio_crc16_4bit_checksum_def crc16_loop_zeros_eq_0)

lemma rx_dispatch_rx_armed_1: "rx_poll_dispatch ndebug e rx_armed_1 = Inr rx_armed_1"
  by (simp add: rx_poll_dispatch_def rx_armed_1_def rp2040_sdio_init_def)

lemma rx_start_rx_armed_1:
  "rp2040_sdio_rx_start False 0x20000000 1 (quiet_env 0) rp2040_sdio_init
     = Inr (SDIO_OK, rx_armed_1)"
  by (simp add: rp2040_sdio_rx_start_def sdio_start_next_block_rx_def assert_passes_def
      Let_def rx_armed_1_def rp2040_sdio_init_def quiet_env_def SDIO_MAX_BLOCKS_def)

lemma dma_complete_rx_armed_1:
  "dma_complete ndebug (quiet_env t) rx_armed_1 = Inr (rx_done_1 0)"
  by (simp add: dma_complete_def rp2040_sdio_dma_irq_def rp2040_sdio_rx_irq_def Let_def
      fifo_wait_ready rx_armed_1_def rx_done_1_def rp2040_sdio_init_def SDIO_MAX_BLOCKS_def
      quiet_env_def)

lemma verify_body_rx_done_1:
  "sdio_verify_rx_checksums_body (mem (quiet_env t)) (rx_done_1 0)
     = Inr ((rx_done_1 0)\<lparr>blocks_checksumed := 1\<rparr>)"
  by (simp add: sdio_verify_rx_checksums_body_def Let_def rx_done_1_def rx_armed_1_def
      rp2040_sdio_init_def SDIO_MAX_BLOCKS_def quiet_env_def read_words_zero crc16_zero_words)

lemma rx_preempted_poll_run:
  "map_sum id (map rx_seen) (rx_actions_run False rx_preempted_poll (rx_armed_1, None))
   = Inr [(None, 0), (None, 0), (None, 0), (None, 1), (None, 1), (None, 1), (None, 1), (None, 1),
          (Some (SDIO_OK, Some 0), 1)]"
proof -
  define c where "c = (\<lambda>pc b. \<lparr>call_pc = pc, call_want = True, call_bytes = b,
                                call_env = quiet_env 5\<rparr>)"
  let ?d = "rx_done_1 0"
  let ?v = "(rx_done_1 0)\<lparr>blocks_checksumed := 1\<rparr>"
  have a1: "rx_action_step False (PollCalled True (quiet_env 5)) (rx_armed_1, None)
              = Inr (None, (rx_armed_1, Some (c At_dispatch None)))"
    by (simp add: rx_action_step_def rx_poll_entry_def c_def)
  have a2: "rx_action_step False PollRuns (rx_armed_1, Some (c At_dispatch None))
              = Inr (None, (rx_armed_1, Some (c At_store None)))"
    by (simp add: rx_action_step_def rx_poll_step_def c_def rx_armed_1_def rp2040_sdio_init_def)
  have a3: "rx_action_step False PollRuns (rx_armed_1, Some (c At_store None))
              = Inr (None, (rx_armed_1, Some (c At_state_test (Some 0))))"
    by (simp add: rx_action_step_def rx_poll_step_def c_def rx_armed_1_def rp2040_sdio_init_def)
  have a4: "rx_action_step False (DmaCompletes (quiet_env 6)) (rx_armed_1, Some (c At_state_test (Some 0)))
              = Inr (None, (?d, Some (c At_state_test (Some 0))))"
    by (simp add: rx_action_step_def dma_complete_rx_armed_1)
  have a5: "rx_action_step False PollRuns (?d, Some (c At_state_test (Some 0)))
              = Inr (None, (?d, Some (c (At_verify_head True 1) (Some 0))))"
    by (simp add: rx_action_step_def rx_poll_step_def c_def rx_done_1_def rx_armed_1_def
        rp2040_sdio_init_def)
  have a6: "rx_action_step False PollRuns (?d, Some (c (At_verify_head True 1) (Some 0)))
              = Inr (None, (?d, Some (c (At_verify_body True 0) (Some 0))))"
    by (simp add: rx_action_step_def rx_poll_step_def c_def rx_done_1_def rx_armed_1_def
        rp2040_sdio_init_def)
  have a7: "rx_action_step False PollRuns (?d, Some (c (At_verify_body True 0) (Some 0)))
              = Inr (None, (?v, Some (c (At_verify_head True 0) (Some 0))))"
    by (simp add: rx_action_step_def rx_poll_step_def c_def verify_body_rx_done_1)
  have a8: "rx_action_step False PollRuns (?v, Some (c (At_verify_head True 0) (Some 0)))
              = Inr (None, (?v, Some (c At_errors_test (Some 0))))"
    by (simp add: rx_action_step_def rx_poll_step_def c_def rx_done_1_def rx_armed_1_def
        rp2040_sdio_init_def)
  have a9: "rx_action_step False PollRuns (?v, Some (c At_errors_test (Some 0)))
              = Inr (Some (SDIO_OK, Some 0), (?v, None))"
    by (simp add: rx_action_step_def rx_poll_step_def c_def rx_done_1_def rx_armed_1_def
        rp2040_sdio_init_def)
  have b: "blocks_done rx_armed_1 = 0" "blocks_done ?d = 1" "blocks_done ?v = 1"
    by (simp_all add: rx_done_1_def rx_armed_1_def rp2040_sdio_init_def)
  show ?thesis
    by (simp add: rx_preempted_poll_def a1 a2 a3 a4 a5 a6 a7 a8 a9 rx_seen_def b)
qed

lemma verify_one_zero_block:
  assumes "blocks_checksumed s = k" and "blocks_done s = k + 1" and "unat k < 255"
      and "block_checksums s ! unat k = 0" and "0 < maxcount"
  shows "sdio_verify_rx_checksums (\<lambda>a. 0) maxcount s = Inr (s\<lparr>blocks_checksumed := k + 1\<rparr>)"
proof -
  have u: "unat (k + 1) = Suc (unat k)"
    using assms(3) unat_add_lem[of k 1] by simp
  have lt: "k < k + 1" by (simp add: word_less_nat_alt u)
  have b: "sdio_verify_rx_checksums_body (\<lambda>a. 0) s = Inr (s\<lparr>blocks_checksumed := k + 1\<rparr>)"
    using assms(1,3,4)
    by (simp add: sdio_verify_rx_checksums_body_def Let_def SDIO_MAX_BLOCKS_def
        read_words_zero crc16_zero_words)
  have stop: "sdio_verify_rx_checksums (\<lambda>a. 0) (maxcount - 1) (s\<lparr>blocks_checksumed := k + 1\<rparr>)
                = Inr (s\<lparr>blocks_checksumed := k + 1\<rparr>)"
    by (rule sdio_verify_rx_checksums_stop) (simp add: assms(2))
  show ?thesis
    using assms(1,2,5) lt b stop
    by (subst sdio_verify_rx_checksums_unfold) simp
qed

lemma replicate_update_same: "(replicate n x)[i := x] = replicate n x"
  by (cases "i < n") (auto simp add: list_eq_iff_nth_eq nth_list_update)

lemma rx_stale_1_run:
  "map_sum id (map rx_seen_busy)
     (session_run False [RxPoll True (fault_env 1), DmaDone (fault_env 2), RxPoll True (fault_env 3)]
        rx_stale_1)
   = Inr [(Some (SDIO_OK, Some 512), 1, True), (None, 1, False), (Some (SDIO_OK, Some 1024), 2, False)]"
proof -
  define a where "a = rx_stale_1\<lparr>dma_irq_flag := False, blocks_done := 1,
                                    transfer_state := SDIO_IDLE\<rparr>"
  define b where "b = a\<lparr>blocks_checksumed := 1\<rparr>"
  define c where "c = b\<lparr>dma_busy := False, dma_irq_flag := True\<rparr>"
  define d where "d = c\<lparr>dma_irq_flag := False, blocks_done := 2\<rparr>"
  define e where "e = d\<lparr>blocks_checksumed := 2\<rparr>"
  note defs = a_def b_def c_def d_def e_def rx_stale_1_def rx_armed_1_def rp2040_sdio_init_def
  have env: "mem (fault_env t) = (\<lambda>a. 0)" "fifo_crc0 (fault_env t) = 0"
      "fifo_crc1 (fault_env t) = 0" "millis (fault_env t) = t" for t
    by (simp_all add: fault_env_def quiet_env_def)
  have w: "fifo_wait (fifo_level (fault_env t)) 2 0 1000" for t
    by (rule fifo_wait_ready) (simp add: fault_env_def quiet_env_def)
  have i1: "rx_poll_dispatch False (fault_env 1) rx_stale_1 = Inr a"
    by (simp add: rx_poll_dispatch_def rp2040_sdio_rx_irq_def Let_def w env)
       (simp add: defs SDIO_MAX_BLOCKS_def replicate_update_same)
  have ga: "blocks_checksumed a = 0" "blocks_done a = 1" "block_checksums a ! 0 = 0"
    by (simp_all add: defs SDIO_MAX_BLOCKS_def)
  have v1: "sdio_verify_rx_checksums (\<lambda>a. 0) 1 a = Inr b"
    using verify_one_zero_block[of a 0 1] by (simp add: b_def ga)
  have fa: "transfer_state a = SDIO_IDLE" "total_blocks a = 1" "bytes_done True a = Some 512"
           "checksum_errors b = 0"
    by (simp_all add: defs bytes_done_def)
  have p1: "rp2040_sdio_rx_poll False True (fault_env 1) rx_stale_1 = Inr (SDIO_OK, Some 512, b)"
    by (simp add: rx_poll_by_dispatch i1 env fa v1)
  have c2: "dma_complete False (fault_env 2) b = Inr c"
    by (simp add: dma_complete_def Let_def) (simp add: defs)
  have i3: "rx_poll_dispatch False (fault_env 3) c = Inr d"
    by (simp add: rx_poll_dispatch_def rp2040_sdio_rx_irq_def Let_def w env)
       (simp add: defs SDIO_MAX_BLOCKS_def replicate_update_same)
  have gd: "blocks_checksumed d = 1" "blocks_done d = 2" "block_checksums d ! Suc 0 = 0"
    by (simp_all add: defs SDIO_MAX_BLOCKS_def)
  have v3: "sdio_verify_rx_checksums (\<lambda>a. 0) 1 d = Inr e"
    using verify_one_zero_block[of d 1 1] by (simp add: e_def gd)
  have fd: "transfer_state d = SDIO_IDLE" "total_blocks d = 1" "bytes_done True d = Some 1024"
           "checksum_errors e = 0"
    by (simp_all add: defs bytes_done_def)
  have p3: "rp2040_sdio_rx_poll False True (fault_env 3) c = Inr (SDIO_OK, Some 1024, e)"
    by (simp add: rx_poll_by_dispatch i3 env fd v3)
  have f: "blocks_done b = 1" "dma_busy b" "blocks_done c = 1" "\<not> dma_busy c"
          "blocks_done e = 2" "\<not> dma_busy e"
    by (simp_all add: defs)
  show ?thesis
    by (simp add: session_step_def p1 c2 p3 rx_seen_busy_def f)
qed

section \<open>Checksums of a transmit session\<close>

lemma four_times_eq_0:
  assumes "k < 128"
  shows "(4 * of_nat k :: u32) = 0 \<longleftrightarrow> k = 0"
proof -
  have k: "unat (of_nat k :: u32) = k"
    using assms by (simp add: unat_of_nat)
  have "unat (4 :: u32) * unat (of_nat k :: u32) < 2 ^ LENGTH(32)"
    using assms by (simp add: k)
  then have "unat (4 * of_nat k :: u32) = unat (4 :: u32) * unat (of_nat k :: u32)"
    by (rule unat_mult_lem[THEN iffD1])
  then have "unat (4 * of_nat k :: u32) = 4 * k" by (simp add: k)
  then show ?thesis by (metis mult_eq_0_iff unat_eq_zero zero_neq_numeral)
qed

lemma read_words_one_at: "read_words (one_at p) p 128 = (replicate 128 0)[0 := 1]"
proof (rule nth_equalityI)
  show "length (read_words (one_at p) p 128) = length ((replicate 128 (0::u32))[0 := 1])"
    by (simp add: read_words_def)
next
  fix i assume "i < length (read_words (one_at p) p 128)"
  then have i: "i < 128" by (simp add: read_words_def)
  then have "read_words (one_at p) p 128 ! i = (if i = 0 then 1 else 0)"
    using four_times_eq_0[OF i] by (simp add: read_words_def one_at_def)
  also have "\<dots> = (replicate 128 0)[0 := 1] ! i"
    using i by (simp add: nth_list_update)
  finally show "read_words (one_at p) p 128 ! i = (replicate 128 0)[0 := 1] ! i" .
qed

lemma crc16_one_at: "sdio_crc16_4bit_checksum (read_words (one_at p) p 128) \<noteq> 0"
proof -
  have "crc16_loop 0 ((replicate 128 0)[0 := replicate 128 0 ! 0 XOR 1]) \<noteq> crc16_loop 0 (replicate 128 0)"
    by (rule crc16_loop_perturb) simp_all
  moreover have "crc16_loop 0 (replicate 128 0) = 0"
    by (simp add: crc16_loop_zeros_eq_0)
  ultimately show ?thesis
    by (simp add: sdio_crc16_4bit_checksum_def read_words_one_at)
qed

text \<open>
  C1 fails on the code. The loop of \<open>sdio_compute_tx_checksums\<close> runs while
  \<open>blocks_checksumed < blocks_done\<close>, and \<open>rp2040_sdio_tx_start\<close> calls it with both
  counters zero: it computes nothing, neither before the DMA transfer of block 0 is
  started nor after (\<open>rp2040_sdio_tx_start_eq\<close>). With assertions compiled in, the
  assertion \<open>blocks_checksumed > blocks_done\<close> of \<open>sdio_start_next_block_tx\<close> fails. Without
  them the session is armed with the checksum table untouched, and when block 0
  completes the handler puts the stale entry on the wire: here 0, for a block whose
  checksum is not 0.
\<close>

theorem tx_start_leaves_checksum_table_stale:
  "rp2040_sdio_tx_start False 0x20000000 1 (tx_env 0) rp2040_sdio_init = Inl AssertionFailed
   \<and> rp2040_sdio_tx_start True 0x20000000 1 (tx_env 0) rp2040_sdio_init = Inr (SDIO_OK, tx_armed_1)
   \<and> blocks_checksumed tx_armed_1 = 0
   \<and> block_checksums tx_armed_1 ! 0 = 0
   \<and> sdio_crc16_4bit_checksum (read_words (mem (tx_env 0)) (data_buf tx_armed_1) 128) \<noteq> 0
   \<and> dma_complete True (tx_env 1) tx_armed_1
       = Inr (tx_armed_1\<lparr>dma_busy := False, blocks_done := 1, transfer_state := SDIO_IDLE,
                          tx_fifo := [0, 0, 0xFFFFFFFF]\<rparr>)"
proof -
  have a: "rp2040_sdio_tx_start False 0x20000000 1 (tx_env 0) rp2040_sdio_init = Inl AssertionFailed"
    by (simp add: rp2040_sdio_tx_start_eq)
  have b: "rp2040_sdio_tx_start True 0x20000000 1 (tx_env 0) rp2040_sdio_init
             = Inr (SDIO_OK, tx_armed_1)"
    by (simp add: rp2040_sdio_tx_start_eq tx_armed_1_def rp2040_sdio_init_def tx_env_def
        quiet_env_def)
  have c: "blocks_checksumed tx_armed_1 = 0" "block_checksums tx_armed_1 ! 0 = 0"
    by (simp_all add: tx_armed_1_def rp2040_sdio_init_def SDIO_MAX_BLOCKS_def)
  have d: "sdio_crc16_4bit_checksum (read_words (mem (tx_env 0)) (data_buf tx_armed_1) 128) \<noteq> 0"
    using crc16_one_at[of "0x20000000"]
    by (simp add: tx_env_def quiet_env_def tx_armed_1_def rp2040_sdio_init_def)
  have w: "fifo_wait (fifo_level (tx_env 1)) 5 0 1000"
    by (rule fifo_wait_ready) (simp add: tx_env_def quiet_env_def)
  have e: "dma_complete True (tx_env 1) tx_armed_1
       = Inr (tx_armed_1\<lparr>dma_busy := False, blocks_done := 1, transfer_state := SDIO_IDLE,
                          tx_fifo := [0, 0, 0xFFFFFFFF]\<rparr>)"
    using w
    by (simp add: dma_complete_def rp2040_sdio_dma_irq_def rp2040_sdio_tx_irq_def Let_def
        tx_armed_1_def rp2040_sdio_init_def SDIO_MAX_BLOCKS_def)
  show ?thesis using a b c d e by simp
qed

section \<open>Manual dispatch of the completion handler\<close>

lemma rx_irq_ignores_flag:
  "rp2040_sdio_rx_irq ndebug e (s\<lparr>dma_irq_flag := b\<rparr>) = rp2040_sdio_rx_irq ndebug e s"
  by (simp add: rp2040_sdio_rx_irq_def Let_def sdio_start_next_block_rx_def)

lemma rx_irq_clears_flag:
  "rp2040_sdio_rx_irq ndebug e s = Inr s' \<Longrightarrow> \<not> dma_irq_flag s'"
  by (auto simp add: rp2040_sdio_rx_irq_def Let_def sdio_start_next_block_rx_def
      split: if_splits)

text \<open>
  For a receive session the manual dispatch is faithful: a poll that finds the flag
  raised does what the interrupt followed by a poll would have done. \<open>rp2040_sdio_rx_irq\<close>
  acknowledges the flag itself.
\<close>

lemma rx_poll_manual_dispatch_eq_irq:
  assumes "inside_irq_handler s" and "dma_irq_flag s" and "transfer_state s = SDIO_RX"
  shows "rp2040_sdio_rx_poll ndebug want_bytes e s =
           (case rp2040_sdio_dma_irq ndebug e s of
              Inl f \<Rightarrow> Inl f
            | Inr s1 \<Rightarrow> rp2040_sdio_rx_poll ndebug want_bytes e s1)"
proof (cases "rp2040_sdio_rx_irq ndebug e s")
  case (Inl f)
  then show ?thesis
    using assms
    by (simp add: rp2040_sdio_dma_irq_def rx_irq_ignores_flag rx_poll_by_dispatch
        rx_poll_dispatch_def)
next
  case (Inr s1)
  then have "\<not> dma_irq_flag s1" by (rule rx_irq_clears_flag)
  then have "rx_poll_dispatch ndebug e s1 = Inr s1" by (simp add: rx_poll_dispatch_def)
  then show ?thesis
    using assms Inr
    by (simp add: rp2040_sdio_dma_irq_def rx_irq_ignores_flag rx_poll_by_dispatch
        rx_poll_dispatch_def)
qed

text \<open>
  For a transmit session it is not: \<open>rp2040_sdio_tx_irq\<close> does not acknowledge the flag
  (only \<open>rp2040_sdio_dma_irq\<close> does, before calling it), so after a poll that ran the
  handler the flag is still raised, whereas the interrupt leaves it cleared.
\<close>

lemma tx_irq_keeps_flag:
  "rp2040_sdio_tx_irq ndebug e s = Inr s' \<Longrightarrow> dma_irq_flag s' = dma_irq_flag s"
  by (auto simp add: rp2040_sdio_tx_irq_def Let_def sdio_start_next_block_tx_def
      split: if_splits)

lemma tx_poll_manual_dispatch_keeps_flag:
  assumes "inside_irq_handler s" and "dma_irq_flag s"
      and "rp2040_sdio_tx_poll ndebug want_bytes e s = Inr (st, b, s')"
  shows "dma_irq_flag s'"
proof -
  from assms(3) obtain s1 where s1: "rp2040_sdio_tx_irq ndebug e s = Inr s1"
    using assms(1,2)
    by (cases "rp2040_sdio_tx_irq ndebug e s")
       (simp_all add: tx_poll_by_dispatch tx_poll_dispatch_def)
  then have "dma_irq_flag s1" using tx_irq_keeps_flag[OF s1] assms(2) by simp
  then show ?thesis
    using assms s1
    by (auto simp add: tx_poll_by_dispatch tx_poll_dispatch_def split: if_splits)
qed

lemma dma_irq_clears_flag:
  "rp2040_sdio_dma_irq ndebug e s = Inr s' \<Longrightarrow> \<not> dma_irq_flag s'"
  using tx_irq_keeps_flag[of ndebug e "s\<lparr>dma_irq_flag := False\<rparr>" s']
        rx_irq_clears_flag[of ndebug e "s\<lparr>dma_irq_flag := False\<rparr>" s']
  by (auto simp add: rp2040_sdio_dma_irq_def Let_def split: if_splits)

lemma fifo_wait_quiet: "fifo_wait (fifo_level (quiet_env t)) 5 0 1000"
  by (rule fifo_wait_ready) (simp add: quiet_env_def)

lemma tx_session_2_polling:
  assumes "blocks_checksumed s = c" and "ndebug \<or> c = 2"
      and "s = (tx_armed_2 True)\<lparr>blocks_checksumed := c\<rparr>"
  shows "map_sum id (map fst) (session_run ndebug tx_session_2 s)
           = Inr [None, Some (SDIO_BUSY, Some 512), Some (SDIO_OK, Some 1024)]"
proof -
  let ?s1 = "s\<lparr>dma_busy := False, dma_irq_flag := True\<rparr>"
  let ?s2 = "s\<lparr>dma_irq_flag := True, tx_fifo := [0, 0, 0xFFFFFFFF], blocks_done := 1,
               dma_busy := True, dma_addr := 0x20000200\<rparr>"
  let ?s3 = "s\<lparr>dma_irq_flag := True, tx_fifo := [0, 0, 0xFFFFFFFF, 0, 0, 0xFFFFFFFF],
               blocks_done := 2, dma_busy := True, dma_addr := 0x20000200,
               transfer_state := SDIO_IDLE, data_sm_enabled := False, data_pins_out := False\<rparr>"
  have 1: "dma_complete ndebug (quiet_env 1) s = Inr ?s1"
    by (simp add: dma_complete_def Let_def assms(3) tx_armed_2_def rp2040_sdio_init_def)
  have i2: "rp2040_sdio_tx_irq ndebug (quiet_env 2) ?s1 = Inr ?s2"
    using assms(2)
    by (auto simp add: rp2040_sdio_tx_irq_def Let_def fifo_wait_quiet assms(3) tx_armed_2_def
        rp2040_sdio_init_def SDIO_MAX_BLOCKS_def sdio_start_next_block_tx_def assert_passes_def)
  have 2: "rp2040_sdio_tx_poll ndebug True (quiet_env 2) ?s1 = Inr (SDIO_BUSY, Some 512, ?s2)"
    by (simp add: tx_poll_by_dispatch tx_poll_dispatch_def i2)
       (simp add: assms(3) tx_armed_2_def rp2040_sdio_init_def bytes_done_def quiet_env_def)
  have i3: "rp2040_sdio_tx_irq ndebug (quiet_env 3) ?s2
              = Inr (?s3\<lparr>data_sm_enabled := True, data_pins_out := True\<rparr>)"
    by (simp add: rp2040_sdio_tx_irq_def Let_def fifo_wait_quiet assms(3) tx_armed_2_def
        rp2040_sdio_init_def SDIO_MAX_BLOCKS_def)
  have 3: "rp2040_sdio_tx_poll ndebug True (quiet_env 3) ?s2 = Inr (SDIO_OK, Some 1024, ?s3)"
    by (simp add: tx_poll_by_dispatch tx_poll_dispatch_def i3)
       (simp add: assms(3) tx_armed_2_def rp2040_sdio_init_def bytes_done_def)
  show ?thesis
    by (simp add: tx_session_2_def session_step_def 1 2 3)
qed

lemma tx_session_2_interrupt:
  assumes "blocks_checksumed s = c" and "ndebug \<or> c = 2"
      and "s = (tx_armed_2 False)\<lparr>blocks_checksumed := c\<rparr>"
  shows "map_sum id (map fst) (session_run ndebug tx_session_2 s)
           = Inr [None, Some (SDIO_BUSY, Some 512), Some (SDIO_BUSY, Some 512)]"
proof -
  let ?s1 = "s\<lparr>dma_irq_flag := False, tx_fifo := [0, 0, 0xFFFFFFFF], blocks_done := 1,
               dma_busy := True, dma_addr := 0x20000200\<rparr>"
  have i1: "rp2040_sdio_tx_irq ndebug (quiet_env 1) (s\<lparr>dma_busy := False, dma_irq_flag := False\<rparr>)
              = Inr ?s1"
    using assms(2)
    by (auto simp add: rp2040_sdio_tx_irq_def Let_def fifo_wait_quiet assms(3) tx_armed_2_def
        rp2040_sdio_init_def SDIO_MAX_BLOCKS_def sdio_start_next_block_tx_def assert_passes_def)
  have 1: "dma_complete ndebug (quiet_env 1) s = Inr ?s1"
    using i1
    by (simp add: dma_complete_def rp2040_sdio_dma_irq_def Let_def)
       (simp add: assms(3) tx_armed_2_def rp2040_sdio_init_def)
  have 2: "rp2040_sdio_tx_poll ndebug True (quiet_env t) ?s1 = Inr (SDIO_BUSY, Some 512, ?s1)"
    if "t \<le> 1000" for t
    using that
    by (simp add: tx_poll_by_dispatch tx_poll_dispatch_def assms(3) tx_armed_2_def
        rp2040_sdio_init_def bytes_done_def quiet_env_def word_le_nat_alt word_less_nat_alt)
  show ?thesis
    by (simp add: tx_session_2_def session_step_def 1 2)
qed

text \<open>
  C2 fails on the code for transmit sessions. The same timeline, one DMA completion
  followed by two polls of a two-block transmit session, ends differently in the two
  modes. Armed inside a handler, the first poll runs the handler for block 0 and the
  second poll, finding the flag still raised, runs it again although block 1 has not
  completed, and reports the session finished with \<open>SDIO_OK\<close>. Armed in thread mode the
  interrupt runs the handler once and both polls return \<open>SDIO_BUSY\<close>. This holds from
  the state that \<open>rp2040_sdio_tx_start\<close> leaves without assertions, and also, with
  assertions, from the state in which the checksums count as computed.
\<close>

theorem tx_polling_mode_diverges_from_interrupt_mode:
  "rp2040_sdio_tx_start True 0x20000000 2 (fault_env 0) rp2040_sdio_init
     = Inr (SDIO_OK, tx_armed_2 True)
   \<and> rp2040_sdio_tx_start True 0x20000000 2 (quiet_env 0) rp2040_sdio_init
     = Inr (SDIO_OK, tx_armed_2 False)
   \<and> map_sum id (map fst) (session_run True tx_session_2 (tx_armed_2 True))
     = Inr [None, Some (SDIO_BUSY, Some 512), Some (SDIO_OK, Some 1024)]
   \<and> map_sum id (map fst) (session_run True tx_session_2 (tx_armed_2 False))
     = Inr [None, Some (SDIO_BUSY, Some 512), Some (SDIO_BUSY, Some 512)]
   \<and> map_sum id (map fst) (session_run False tx_session_2 (tx_ready_2 True))
     = Inr [None, Some (SDIO_BUSY, Some 512), Some (SDIO_OK, Some 1024)]
   \<and> map_sum id (map fst) (session_run False tx_session_2 (tx_ready_2 False))
     = Inr [None, Some (SDIO_BUSY, Some 512), Some (SDIO_BUSY, Some 512)]"
proof -
  have a: "rp2040_sdio_tx_start True 0x20000000 2 (fault_env 0) rp2040_sdio_init
     = Inr (SDIO_OK, tx_armed_2 True)"
    by (simp add: rp2040_sdio_tx_start_eq tx_armed_2_def rp2040_sdio_init_def fault_env_def
        quiet_env_def)
  have b: "rp2040_sdio_tx_start True 0x20000000 2 (quiet_env 0) rp2040_sdio_init
     = Inr (SDIO_OK, tx_armed_2 False)"
    by (simp add: rp2040_sdio_tx_start_eq tx_armed_2_def rp2040_sdio_init_def quiet_env_def)
  have c: "blocks_checksumed (tx_armed_2 h) = 0" "tx_armed_2 h = (tx_armed_2 h)\<lparr>blocks_checksumed := 0\<rparr>"
          "blocks_checksumed (tx_ready_2 h) = 2" "tx_ready_2 h = (tx_armed_2 h)\<lparr>blocks_checksumed := 2\<rparr>"
    for h
    by (simp_all add: tx_ready_2_def tx_armed_2_def rp2040_sdio_init_def)
  note p1 = tx_session_2_polling[OF c(1) _ c(2), of True]
  note p2 = tx_session_2_polling[OF c(3) _ c(4), of False]
  note q1 = tx_session_2_interrupt[OF c(1) _ c(2), of True]
  note q2 = tx_session_2_interrupt[OF c(3) _ c(4), of False]
  show ?thesis using a b p1 p2 q1 q2 by simp
qed

section \<open>Progress and status of a receive session\<close>

text \<open>
  C3, as stated, fails.
  \<^item> A poll made before the only block of a session has completed, but more than 1000 ms
    after the session was armed, returns \<open>SDIO_ERR_DATA_TIMEOUT\<close> and not \<open>SDIO_BUSY\<close>; and
    the next poll returns a final status again (here \<open>SDIO_OK\<close>), so a final status is
    not returned exactly once. No block has completed in either state.
  \<^item> When the block completes while a poll runs, after the store through
    \<^verbatim>\<open>bytes_complete\<close> and before the test of the transfer state, the poll returns
    \<open>SDIO_OK\<close> and reports 0 bytes although one block is complete.
  \<^item> In a session armed inside a handler while the completion flag is still raised
    (\<open>rp2040_sdio_rx_start\<close> does not acknowledge it), the first poll takes the flag for
    the completion of the block and returns \<open>SDIO_OK\<close> with 512 bytes while the transfer
    is in flight; when the transfer does complete, the next poll counts a second block,
    and two blocks are complete in a session of one.
  \<^item> A session of no block at all fails the assertion of \<open>sdio_start_next_block_rx\<close>;
    without assertions its transfer is started, and the completion leaves one block
    complete in a session of none. A buffer that is not aligned and a session of 257
    blocks fail the assertion of \<open>rp2040_sdio_rx_start\<close>.
\<close>

theorem rx_session_counterexamples:
  "rp2040_sdio_rx_start False 0x20000000 1 (quiet_env 0) rp2040_sdio_init
     = Inr (SDIO_OK, rx_armed_1)
   \<and> session_run False [RxPoll True (quiet_env 1001), RxPoll True (quiet_env 1002)] rx_armed_1
     = Inr [(Some (SDIO_ERR_DATA_TIMEOUT, Some 0),
             rx_armed_1\<lparr>msgs := [DbgRxPollTimeout], dma_busy := False,
                         data_sm_enabled := False, data_pins_out := False,
                         transfer_state := SDIO_IDLE\<rparr>),
            (Some (SDIO_OK, Some 0),
             rx_armed_1\<lparr>msgs := [DbgRxPollTimeout], dma_busy := False,
                         data_sm_enabled := False, data_pins_out := False,
                         transfer_state := SDIO_IDLE\<rparr>)]
   \<and> blocks_done rx_armed_1 = 0 \<and> total_blocks rx_armed_1 = 1
   \<and> map_sum id (map rx_seen) (rx_actions_run False rx_preempted_poll (rx_armed_1, None))
     = Inr [(None, 0), (None, 0), (None, 0), (None, 1), (None, 1), (None, 1), (None, 1),
            (None, 1), (Some (SDIO_OK, Some 0), 1)]
   \<and> rp2040_sdio_rx_start False 0x20000000 1 (fault_env 0)
        (rp2040_sdio_init\<lparr>dma_irq_flag := True\<rparr>)
     = Inr (SDIO_OK, rx_stale_1)
   \<and> total_blocks rx_stale_1 = 1
   \<and> map_sum id (map rx_seen_busy)
        (session_run False
           [RxPoll True (fault_env 1), DmaDone (fault_env 2), RxPoll True (fault_env 3)]
           rx_stale_1)
     = Inr [(Some (SDIO_OK, Some 512), 1, True), (None, 1, False),
            (Some (SDIO_OK, Some 1024), 2, False)]
   \<and> rp2040_sdio_rx_start False 0x20000000 0 (quiet_env 0) rp2040_sdio_init
     = Inl AssertionFailed
   \<and> rp2040_sdio_rx_start True 0x20000000 0 (quiet_env 0) rp2040_sdio_init
     = Inr (SDIO_OK, rx_armed_1\<lparr>total_blocks := 0\<rparr>)
   \<and> dma_complete True (quiet_env 1) (rx_armed_1\<lparr>total_blocks := 0\<rparr>)
     = Inr ((rx_done_1 0)\<lparr>total_blocks := 0\<rparr>)
   \<and> blocks_done ((rx_done_1 0)\<lparr>total_blocks := 0\<rparr>) = 1
   \<and> rp2040_sdio_rx_start False 0x20000001 1 (quiet_env 0) rp2040_sdio_init
     = Inl AssertionFailed
   \<and> rp2040_sdio_rx_start False 0x20000000 257 (quiet_env 0) rp2040_sdio_init
     = Inl AssertionFailed"
proof -
  let ?s' = "rx_armed_1\<lparr>msgs := [DbgRxPollTimeout], dma_busy := False,
                         data_sm_enabled := False, data_pins_out := False,
                         transfer_state := SDIO_IDLE\<rparr>"
  note a = rx_start_rx_armed_1
  have p1: "rp2040_sdio_rx_poll False True (quiet_env 1001) rx_armed_1
              = Inr (SDIO_ERR_DATA_TIMEOUT, Some 0, ?s')"
    by (simp add: rx_poll_by_dispatch rx_dispatch_rx_armed_1)
       (simp add: rx_armed_1_def rp2040_sdio_init_def quiet_env_def bytes_done_def)
  have d2: "rx_poll_dispatch False (quiet_env 1002) ?s' = Inr ?s'"
    by (simp add: rx_poll_dispatch_def rx_armed_1_def rp2040_sdio_init_def)
  have v2: "sdio_verify_rx_checksums m k ?s' = Inr ?s'" for m k
    by (rule sdio_verify_rx_checksums_stop)
       (simp add: rx_armed_1_def rp2040_sdio_init_def)
  have p2: "rp2040_sdio_rx_poll False True (quiet_env 1002) ?s' = Inr (SDIO_OK, Some 0, ?s')"
    by (simp add: rx_poll_by_dispatch d2 v2)
       (simp add: rx_armed_1_def rp2040_sdio_init_def bytes_done_def)
  have r: "session_run False [RxPoll True (quiet_env 1001), RxPoll True (quiet_env 1002)] rx_armed_1
     = Inr [(Some (SDIO_ERR_DATA_TIMEOUT, Some 0), ?s'), (Some (SDIO_OK, Some 0), ?s')]"
    by (simp add: session_step_def p1 p2)
  have f: "blocks_done rx_armed_1 = 0 \<and> total_blocks rx_armed_1 = 1"
    by (simp add: rx_armed_1_def rp2040_sdio_init_def)
  note pre = rx_preempted_poll_run
  have st: "rp2040_sdio_rx_start False 0x20000000 1 (fault_env 0)
              (rp2040_sdio_init\<lparr>dma_irq_flag := True\<rparr>) = Inr (SDIO_OK, rx_stale_1)"
    by (simp add: rp2040_sdio_rx_start_def sdio_start_next_block_rx_def assert_passes_def
        Let_def rx_stale_1_def rx_armed_1_def rp2040_sdio_init_def fault_env_def quiet_env_def
        SDIO_MAX_BLOCKS_def)
  have tb: "total_blocks rx_stale_1 = 1"
    by (simp add: rx_stale_1_def rx_armed_1_def rp2040_sdio_init_def)
  note stale = rx_stale_1_run
  have z1: "rp2040_sdio_rx_start False 0x20000000 0 (quiet_env 0) rp2040_sdio_init
              = Inl AssertionFailed"
    by (simp add: rp2040_sdio_rx_start_def sdio_start_next_block_rx_def assert_passes_def
        Let_def rp2040_sdio_init_def SDIO_MAX_BLOCKS_def)
  have z2: "rp2040_sdio_rx_start True 0x20000000 0 (quiet_env 0) rp2040_sdio_init
              = Inr (SDIO_OK, rx_armed_1\<lparr>total_blocks := 0\<rparr>)"
    by (simp add: rp2040_sdio_rx_start_def sdio_start_next_block_rx_def assert_passes_def
        Let_def rx_armed_1_def rp2040_sdio_init_def quiet_env_def)
  have z3: "dma_complete True (quiet_env 1) (rx_armed_1\<lparr>total_blocks := 0\<rparr>)
              = Inr ((rx_done_1 0)\<lparr>total_blocks := 0\<rparr>)"
    by (simp add: dma_complete_def rp2040_sdio_dma_irq_def rp2040_sdio_rx_irq_def Let_def
        fifo_wait_ready rx_armed_1_def rx_done_1_def rp2040_sdio_init_def SDIO_MAX_BLOCKS_def
        quiet_env_def)
  have z4: "blocks_done ((rx_done_1 0)\<lparr>total_blocks := 0\<rparr>) = 1"
    by (simp add: rx_done_1_def)
  have u1: "rp2040_sdio_rx_start False 0x20000001 1 (quiet_env 0) rp2040_sdio_init
              = Inl AssertionFailed"
    by (simp add: rp2040_sdio_rx_start_def assert_passes_def)
  have u2: "rp2040_sdio_rx_start False 0x20000000 257 (quiet_env 0) rp2040_sdio_init
              = Inl AssertionFailed"
    by (simp add: rp2040_sdio_rx_start_def assert_passes_def SDIO_MAX_BLOCKS_def)
  show ?thesis
    using a r f pre st tb stale z1 z2 z3 z4 u1 u2 by simp
qed

text \<open>
  C3, amended. A receive session is armed for \<open>1 \<le> n \<le> 256\<close> blocks on an aligned
  buffer, with no completion flag pending; it starts with no block complete and the
  transfer of block 0 in flight. Then, for every schedule, that is to say every
  interleaving of completions of the channel with calls of \<open>rp2040_sdio_rx_poll\<close> and
  with their statements, the run never leaves the defined behaviour and every action
  does what \<open>rx_action_ok\<close> says:
  \<^item> the number of completed blocks never decreases and never exceeds \<open>n\<close>; it grows by
    exactly one each time the completion handler fires, which is at a completion in a
    session armed outside a handler and at the dispatch of a poll that finds the flag
    raised in a session armed inside one, and it changes at no other time;
  \<^item> the session leaves the receiving state exactly when the handler fires for the last
    block or a poll reaches the end of \<open>rp2040_sdio_stop\<close>, and never returns to it;
  \<^item> every call returns, after at most \<open>2 * n + 9\<close> of its statements;
  \<^item> a call that leaves the session receiving returns \<open>SDIO_BUSY\<close>, and \<open>SDIO_BUSY\<close> is
    returned only within 1000 ms of arming; \<open>SDIO_ERR_DATA_TIMEOUT\<close> is returned only
    later, by the calls that stop the engine; \<open>SDIO_OK\<close> and \<open>SDIO_ERR_DATA_CRC\<close> are
    returned only with the session idle, and by every call made once it is idle;
  \<^item> the value stored through \<^verbatim>\<open>bytes_complete\<close> is 512 times the number of blocks that
    were complete when the call stored it, which is at most the number complete when
    it returns.
\<close>

theorem rx_session_progress_and_status:
  assumes "1 \<le> unat num_blocks" and "unat num_blocks \<le> SDIO_MAX_BLOCKS"
      and "buffer AND 3 = 0" and "\<not> dma_irq_flag s"
  shows "\<exists>s1 tr. rp2040_sdio_rx_start ndebug buffer num_blocks e s = Inr (SDIO_OK, s1)
            \<and> blocks_done s1 = 0 \<and> transfer_state s1 = SDIO_RX
            \<and> dma_busy s1 \<and> dma_addr s1 = buffer
            \<and> rx_actions_run ndebug acts (s1, None) = Inr tr
            \<and> rx_schedule_ok (unat num_blocks) (millis e) (icsr_vectactive e \<noteq> 0) h
                 (s1, None) acts tr"
proof -
  from rx_start_session_inv[OF assms(1,2) _ assms(4), of ndebug buffer e] assms(3)
  obtain s1 where s1: "rp2040_sdio_rx_start ndebug buffer num_blocks e s = Inr (SDIO_OK, s1)"
      "rx_session_inv (unat num_blocks) (millis e) (icsr_vectactive e \<noteq> 0) s1"
      "blocks_done s1 = 0" "transfer_state s1 = SDIO_RX" "dma_busy s1" "dma_addr s1 = buffer"
    by auto
  have "rx_config_inv (unat num_blocks) (millis e) (icsr_vectactive e \<noteq> 0) h (s1, None)"
    using s1(2) by (simp add: rx_config_inv_def)
  from rx_actions_run_ok[OF this, of ndebug acts]
  obtain tr where "rx_actions_run ndebug acts (s1, None) = Inr tr"
      "rx_schedule_ok (unat num_blocks) (millis e) (icsr_vectactive e \<noteq> 0) h (s1, None) acts tr"
    by auto
  with s1 show ?thesis by blast
qed

theorem rx_session_progress_and_status_witness:
  "\<exists>s1 tr. rp2040_sdio_rx_start False 0x20000000 2 (quiet_env 0) rp2040_sdio_init
               = Inr (SDIO_OK, s1)
          \<and> blocks_done s1 = 0 \<and> transfer_state s1 = SDIO_RX
          \<and> dma_busy s1 \<and> dma_addr s1 = 0x20000000
          \<and> rx_actions_run False rx_session_2 (s1, None) = Inr tr
          \<and> rx_schedule_ok 2 0 False \<lparr>idle_at_call = False, done_at_store = 0\<rparr>
               (s1, None) rx_session_2 tr"
  using rx_session_progress_and_status[where num_blocks = 2 and buffer = "0x20000000"
      and s = rp2040_sdio_init and ndebug = False and e = "quiet_env 0"
      and acts = rx_session_2 and h = "\<lparr>idle_at_call = False, done_at_store = 0\<rparr>"]
  by (simp add: rp2040_sdio_init_def SDIO_MAX_BLOCKS_def quiet_env_def)

section \<open>Checksum mismatches of a receive session\<close>

text \<open>
  C4. In a receive session, \<open>sdio_verify_rx_checksums\<close> changes nothing but the count of
  verified blocks, the error counter and the log: it leaves the transfer state, the
  number of completed blocks and the DMA channel as they are, adds the number of
  mismatching blocks among those it verifies to the error counter, and logs a mismatch
  only if it is the first of the session (\<open>rx_verified\<close>). The error counter is zero
  when the session is armed and the completion handler does not touch it, so it counts
  the mismatches seen since the session was armed. A poll that finds the session idle
  verifies every completed block not verified yet and returns \<open>SDIO_OK\<close> exactly when
  the error counter was zero and none of these blocks mismatches, and
  \<open>SDIO_ERR_DATA_CRC\<close> otherwise; a poll that finds it in flight within its budget returns
  \<open>SDIO_BUSY\<close> whatever the checksums are.

  A mismatch changes nothing in the advancement of the blocks. What the completion
  handler does to the progress of the session depends neither on the error counter,
  the table of checksums and the log nor on the CRC words it reads; in a receiving
  session whose channel has completed it fires as \<open>rx_handler_fired\<close> says, whatever has
  been counted: one more block is complete and the next transfer is started, or the
  session is idle after the last block. And two runs of any schedule whose actions
  differ at most in the CRC words and the memory read, from states with the same
  progress, go through the same progress and return the same results, up to the
  difference between \<open>SDIO_OK\<close> and \<open>SDIO_ERR_DATA_CRC\<close>.
\<close>

theorem rx_checksum_mismatch_only_counted:
  assumes "rx_poll_dispatch ndebug e s = Inr s1" and "rx_inv n s1"
  shows "sdio_verify_rx_checksums m maxcount s1 = Inr (rx_verified m (verify_upto maxcount s1) s1)
       \<and> transfer_state (rx_verified m hi s1) = transfer_state s1
       \<and> blocks_done (rx_verified m hi s1) = blocks_done s1
       \<and> total_blocks (rx_verified m hi s1) = total_blocks s1
       \<and> dma_busy (rx_verified m hi s1) = dma_busy s1
       \<and> data_sm_enabled (rx_verified m hi s1) = data_sm_enabled s1
       \<and> (transfer_state s1 = SDIO_IDLE \<longrightarrow>
            rp2040_sdio_rx_poll ndebug want_bytes e s
              = Inr (if checksum_errors s1 = 0
                        \<and> rx_mismatches (mem e) s1 (unat (blocks_checksumed s1))
                             (unat (blocks_done s1)) = []
                     then SDIO_OK else SDIO_ERR_DATA_CRC,
                     bytes_done want_bytes s1,
                     rx_verified (mem e) (unat (blocks_done s1)) s1))
       \<and> (transfer_state s1 \<noteq> SDIO_IDLE \<and> \<not> millis e - transfer_start_time s1 > 1000 \<longrightarrow>
            (\<exists>s'. rp2040_sdio_rx_poll ndebug want_bytes e s
                     = Inr (SDIO_BUSY, bytes_done want_bytes s1, s')
                 \<and> transfer_state s' = transfer_state s1 \<and> blocks_done s' = blocks_done s1))
       \<and> (rp2040_sdio_rx_start ndebug buffer num_blocks e0 s0 = Inr (st0, t0) \<longrightarrow>
            checksum_errors t0 = 0 \<and> blocks_checksumed t0 = 0)
       \<and> (rp2040_sdio_rx_irq ndebug e2 s2 = Inr t2 \<longrightarrow>
            checksum_errors t2 = checksum_errors s2
            \<and> blocks_checksumed t2 = blocks_checksumed s2)
       \<and> (rx_progress sy = rx_progress sx \<and> fifo_level ey = fifo_level ex \<longrightarrow>
            map_sum id rx_progress (rp2040_sdio_rx_irq ndebug ey sy)
              = map_sum id rx_progress (rp2040_sdio_rx_irq ndebug ex sx))
       \<and> (rx_inv nx sx \<and> transfer_state sx = SDIO_RX \<and> \<not> dma_busy sx \<longrightarrow>
            (\<exists>t. rp2040_sdio_rx_irq ndebug ex sx = Inr t \<and> rx_handler_fired nx ex sx t))
       \<and> (list_all2 rx_action_same actsy actsx \<and> rx_progress sy = rx_progress sx \<longrightarrow>
            map_sum id (map rx_output_progress) (rx_actions_run ndebug actsy (sy, None))
              = map_sum id (map rx_output_progress) (rx_actions_run ndebug actsx (sx, None)))"
proof -
  have d: "unat (blocks_done s1) \<le> SDIO_MAX_BLOCKS"
    and c: "unat (checksum_errors s1) \<le> unat (blocks_checksumed s1)"
    using assms(2) by (simp_all add: rx_inv_def)
  note p = rx_poll_after_dispatch[OF assms, of want_bytes]
  have st: "rp2040_sdio_rx_start ndebug buffer num_blocks e0 s0 = Inr (st0, t0) \<longrightarrow>
            checksum_errors t0 = 0 \<and> blocks_checksumed t0 = 0"
    by (auto simp add: rp2040_sdio_rx_start_def sdio_start_next_block_rx_def Let_def
        split: if_splits)
  have irq: "rp2040_sdio_rx_irq ndebug e2 s2 = Inr t2 \<longrightarrow>
            checksum_errors t2 = checksum_errors s2
            \<and> blocks_checksumed t2 = blocks_checksumed s2"
    by (auto simp add: rp2040_sdio_rx_irq_def sdio_start_next_block_rx_def Let_def
        split: if_splits)
  have main: "sdio_verify_rx_checksums m maxcount s1
                = Inr (rx_verified m (verify_upto maxcount s1) s1)"
    by (rule sdio_verify_rx_checksums_eq[OF d c])
  have ni: "rx_progress sy = rx_progress sx \<and> fifo_level ey = fifo_level ex \<longrightarrow>
            map_sum id rx_progress (rp2040_sdio_rx_irq ndebug ey sy)
              = map_sum id rx_progress (rp2040_sdio_rx_irq ndebug ex sx)"
    using rx_irq_progress[of sy sx ey ex ndebug] by blast
  have fired: "rx_inv nx sx \<and> transfer_state sx = SDIO_RX \<and> \<not> dma_busy sx \<longrightarrow>
            (\<exists>t. rp2040_sdio_rx_irq ndebug ex sx = Inr t \<and> rx_handler_fired nx ex sx t)"
  proof
    assume a: "rx_inv nx sx \<and> transfer_state sx = SDIO_RX \<and> \<not> dma_busy sx"
    then have i: "rx_session_inv nx (transfer_start_time sx) (inside_irq_handler sx) sx"
      by (simp add: rx_inv_session_inv)
    have dn: "unat (blocks_done sx) < nx" using a by (simp add: rx_inv_def)
    from rx_irq_fires[OF i _ dn, of ndebug ex] a
    show "\<exists>t. rp2040_sdio_rx_irq ndebug ex sx = Inr t \<and> rx_handler_fired nx ex sx t"
      by auto
  qed
  have run: "list_all2 rx_action_same actsy actsx \<and> rx_progress sy = rx_progress sx \<longrightarrow>
            map_sum id (map rx_output_progress) (rx_actions_run ndebug actsy (sy, None))
              = map_sum id (map rx_output_progress) (rx_actions_run ndebug actsx (sx, None))"
    using rx_actions_run_progress[of actsy actsx "(sy, None)" "(sx, None)" ndebug] by simp
  have old: "transfer_state (rx_verified m hi s1) = transfer_state s1
       \<and> blocks_done (rx_verified m hi s1) = blocks_done s1
       \<and> total_blocks (rx_verified m hi s1) = total_blocks s1
       \<and> dma_busy (rx_verified m hi s1) = dma_busy s1
       \<and> data_sm_enabled (rx_verified m hi s1) = data_sm_enabled s1"
    by (simp add: rx_verified_fields)
  have idle: "transfer_state s1 = SDIO_IDLE \<longrightarrow>
            rp2040_sdio_rx_poll ndebug want_bytes e s
              = Inr (if checksum_errors s1 = 0
                        \<and> rx_mismatches (mem e) s1 (unat (blocks_checksumed s1))
                             (unat (blocks_done s1)) = []
                     then SDIO_OK else SDIO_ERR_DATA_CRC,
                     bytes_done want_bytes s1,
                     rx_verified (mem e) (unat (blocks_done s1)) s1)"
    using p by simp
  have busy: "transfer_state s1 \<noteq> SDIO_IDLE \<and> \<not> millis e - transfer_start_time s1 > 1000 \<longrightarrow>
            (\<exists>s'. rp2040_sdio_rx_poll ndebug want_bytes e s
                     = Inr (SDIO_BUSY, bytes_done want_bytes s1, s')
                 \<and> transfer_state s' = transfer_state s1 \<and> blocks_done s' = blocks_done s1)"
    using p by (simp add: rx_verified_fields)
  show ?thesis
    using main old idle busy st irq ni fired run by blast
qed

lemma rx_inv_rx_done_1: "rx_inv 1 (rx_done_1 crc)"
  by (simp add: rx_inv_def rx_done_1_def rx_armed_1_def rp2040_sdio_init_def SDIO_MAX_BLOCKS_def)

theorem rx_checksum_mismatch_only_counted_witness:
  "rp2040_sdio_rx_poll False True (quiet_env 50) (rx_done_1 5)
     = Inr (SDIO_ERR_DATA_CRC, Some 512,
            (rx_done_1 5)\<lparr>blocks_checksumed := 1, checksum_errors := 1,
                           msgs := [LogRxChecksumError 0 5]\<rparr>)
   \<and> rp2040_sdio_rx_poll False True (quiet_env 50) (rx_done_1 0)
     = Inr (SDIO_OK, Some 512, (rx_done_1 0)\<lparr>blocks_checksumed := 1\<rparr>)
   \<and> (\<exists>t. rp2040_sdio_rx_irq False (quiet_env 6) (rx_armed_1\<lparr>dma_busy := False\<rparr>) = Inr t
          \<and> rx_handler_fired 1 (quiet_env 6) (rx_armed_1\<lparr>dma_busy := False\<rparr>) t)
   \<and> map_sum id (map rx_output_progress)
        (rx_actions_run False rx_preempted_poll_bad (rx_armed_1, None))
     = map_sum id (map rx_output_progress)
        (rx_actions_run False rx_preempted_poll (rx_armed_1, None))"
proof -
  have h: "rx_poll_dispatch False (quiet_env 50) (rx_done_1 crc) = Inr (rx_done_1 crc)" for crc
    by (simp add: rx_poll_dispatch_def rx_done_1_def rx_armed_1_def rp2040_sdio_init_def)
  have f: "transfer_state (rx_done_1 crc) = SDIO_IDLE" "checksum_errors (rx_done_1 crc) = 0"
          "unat (blocks_checksumed (rx_done_1 crc)) = 0" "unat (blocks_done (rx_done_1 crc)) = 1"
          "bytes_done True (rx_done_1 crc) = Some 512" "msgs (rx_done_1 crc) = []" for crc
    by (simp_all add: rx_done_1_def rx_armed_1_def rp2040_sdio_init_def bytes_done_def)
  have c: "rx_block_crc (mem (quiet_env 50)) (rx_done_1 crc) 0 = 0" for crc
    by (simp add: rx_block_crc_def quiet_env_def read_words_zero crc16_zero_words)
  have t: "block_checksums (rx_done_1 crc) ! 0 = crc" for crc
    by (simp add: rx_done_1_def SDIO_MAX_BLOCKS_def)
  have m5: "rx_mismatches (mem (quiet_env 50)) (rx_done_1 5) 0 (Suc 0) = [0]"
    by (simp add: rx_mismatches_def rx_block_mismatch_def c t)
  have m0: "rx_mismatches (mem (quiet_env 50)) (rx_done_1 0) 0 (Suc 0) = []"
    by (simp add: rx_mismatches_def rx_block_mismatch_def c t)
  have v5: "rx_verified (mem (quiet_env 50)) (Suc 0) (rx_done_1 5)
              = (rx_done_1 5)\<lparr>blocks_checksumed := 1, checksum_errors := 1,
                               msgs := [LogRxChecksumError 0 5]\<rparr>"
    by (simp add: rx_verified_def f m5 c t)
  have v0: "rx_verified (mem (quiet_env 50)) (Suc 0) (rx_done_1 0)
              = (rx_done_1 0)\<lparr>blocks_checksumed := 1\<rparr>"
    by (simp add: rx_verified_def f m0)
  have i: "rx_inv 1 (rx_armed_1\<lparr>dma_busy := False\<rparr>)
           \<and> transfer_state (rx_armed_1\<lparr>dma_busy := False\<rparr>) = SDIO_RX
           \<and> \<not> dma_busy (rx_armed_1\<lparr>dma_busy := False\<rparr>)"
    by (simp add: rx_inv_def rx_armed_1_def rp2040_sdio_init_def SDIO_MAX_BLOCKS_def)
  have l: "list_all2 rx_action_same rx_preempted_poll_bad rx_preempted_poll
           \<and> rx_progress rx_armed_1 = rx_progress rx_armed_1"
    by (simp add: rx_preempted_poll_bad_def rx_preempted_poll_def rx_action_same_def
        env_timing_def quiet_env_def)
  from rx_checksum_mismatch_only_counted[where want_bytes = True,
         OF h[of 5] rx_inv_rx_done_1[of 5]]
  have 1: "rp2040_sdio_rx_poll False True (quiet_env 50) (rx_done_1 5)
     = Inr (SDIO_ERR_DATA_CRC, Some 512,
            (rx_done_1 5)\<lparr>blocks_checksumed := 1, checksum_errors := 1,
                           msgs := [LogRxChecksumError 0 5]\<rparr>)"
    by (simp add: f m5 v5)
  from rx_checksum_mismatch_only_counted[where want_bytes = True,
         OF h[of 0] rx_inv_rx_done_1[of 0]]
  have 2: "rp2040_sdio_rx_poll False True (quiet_env 50) (rx_done_1 0)
     = Inr (SDIO_OK, Some 512, (rx_done_1 0)\<lparr>blocks_checksumed := 1\<rparr>)"
    by (simp add: f m0 v0)
  from rx_checksum_mismatch_only_counted[where sx = "rx_armed_1\<lparr>dma_busy := False\<rparr>"
         and nx = 1 and ex = "quiet_env 6", OF h[of 0] rx_inv_rx_done_1[of 0]] i
  have 3: "\<exists>t. rp2040_sdio_rx_irq False (quiet_env 6) (rx_armed_1\<lparr>dma_busy := False\<rparr>) = Inr t
          \<and> rx_handler_fired 1 (quiet_env 6) (rx_armed_1\<lparr>dma_busy := False\<rparr>) t"
    by blast
  from rx_checksum_mismatch_only_counted[where sy = rx_armed_1 and sx = rx_armed_1
         and actsy = rx_preempted_poll_bad and actsx = rx_preempted_poll,
         OF h[of 0] rx_inv_rx_done_1[of 0]] l
  have 4: "map_sum id (map rx_output_progress)
        (rx_actions_run False rx_preempted_poll_bad (rx_armed_1, None))
     = map_sum id (map rx_output_progress)
        (rx_actions_run False rx_preempted_poll (rx_armed_1, None))"
    by blast
  show ?thesis using 1 2 3 4 by blast
qed

section \<open>Checksum work of a poll in flight\<close>

text \<open>
  C5, as stated, fails: a poll of a receive session in flight and within its budget, made
  before any block has completed, returns \<open>SDIO_BUSY\<close> and advances nothing; the
  state, with its count of verified blocks, is unchanged.
\<close>

theorem rx_poll_in_flight_advances_nothing:
  "rp2040_sdio_rx_start False 0x20000000 1 (quiet_env 0) rp2040_sdio_init
     = Inr (SDIO_OK, rx_armed_1)
   \<and> rp2040_sdio_rx_poll False True (quiet_env 5) rx_armed_1 = Inr (SDIO_BUSY, Some 0, rx_armed_1)
   \<and> blocks_checksumed rx_armed_1 = 0"
proof -
  note a = rx_start_rx_armed_1
  have v: "sdio_verify_rx_checksums (mem (quiet_env 5)) 1 rx_armed_1 = Inr rx_armed_1"
    by (rule sdio_verify_rx_checksums_stop)
       (simp add: rx_armed_1_def rp2040_sdio_init_def)
  have b: "rp2040_sdio_rx_poll False True (quiet_env 5) rx_armed_1
             = Inr (SDIO_BUSY, Some 0, rx_armed_1)"
    by (simp add: rx_poll_by_dispatch rx_dispatch_rx_armed_1 v)
       (simp add: rx_armed_1_def rp2040_sdio_init_def quiet_env_def bytes_done_def)
  show ?thesis using a b by (simp add: rx_armed_1_def rp2040_sdio_init_def)
qed

text \<open>
  C5, amended. A poll that finds the session in flight and within its budget returns
  \<open>SDIO_BUSY\<close>. In a receive session it verifies one more block when a completed block
  is still unverified, and none otherwise; in a transmit session it computes no checksum
  and leaves the state as the dispatch left it. So at most one block is checksummed by
  such a poll.
\<close>

theorem poll_in_flight_at_most_one_block:
  "(rx_poll_dispatch ndebug e s = Inr s1 \<and> rx_inv n s1 \<and> transfer_state s1 \<noteq> SDIO_IDLE
      \<and> \<not> millis e - transfer_start_time s1 > 1000
    \<longrightarrow> rp2040_sdio_rx_poll ndebug want_bytes e s
          = Inr (SDIO_BUSY, bytes_done want_bytes s1,
                 rx_verified (mem e)
                   (unat (blocks_checksumed s1)
                      + (if blocks_checksumed s1 < blocks_done s1 then 1 else 0)) s1))
   \<and> (tx_poll_dispatch ndebug e s = Inr s1 \<and> transfer_state s1 \<noteq> SDIO_IDLE
      \<and> \<not> millis e - transfer_start_time s1 > 1000
    \<longrightarrow> rp2040_sdio_tx_poll ndebug want_bytes e s = Inr (SDIO_BUSY, bytes_done want_bytes s1, s1))"
proof (intro conjI impI)
  assume a: "rx_poll_dispatch ndebug e s = Inr s1 \<and> rx_inv n s1 \<and> transfer_state s1 \<noteq> SDIO_IDLE
      \<and> \<not> millis e - transfer_start_time s1 > 1000"
  then have "rx_poll_dispatch ndebug e s = Inr s1" "rx_inv n s1" by simp_all
  from rx_poll_after_dispatch[OF this, of want_bytes] a
  show "rp2040_sdio_rx_poll ndebug want_bytes e s
          = Inr (SDIO_BUSY, bytes_done want_bytes s1,
                 rx_verified (mem e)
                   (unat (blocks_checksumed s1)
                      + (if blocks_checksumed s1 < blocks_done s1 then 1 else 0)) s1)"
    by simp
next
  assume "tx_poll_dispatch ndebug e s = Inr s1 \<and> transfer_state s1 \<noteq> SDIO_IDLE
      \<and> \<not> millis e - transfer_start_time s1 > 1000"
  then show "rp2040_sdio_tx_poll ndebug want_bytes e s
               = Inr (SDIO_BUSY, bytes_done want_bytes s1, s1)"
    by (simp add: tx_poll_by_dispatch)
qed

theorem poll_in_flight_at_most_one_block_witness:
  "rp2040_sdio_rx_poll False True (quiet_env 5)
       (rx_armed_1\<lparr>total_blocks := 2, blocks_done := 1\<rparr>)
     = Inr (SDIO_BUSY, Some 512,
            rx_armed_1\<lparr>total_blocks := 2, blocks_done := 1, blocks_checksumed := 1\<rparr>)
   \<and> rp2040_sdio_tx_poll False True (quiet_env 5) (tx_ready_2 False)
     = Inr (SDIO_BUSY, Some 0, tx_ready_2 False)"
proof -
  let ?s = "rx_armed_1\<lparr>total_blocks := 2, blocks_done := 1\<rparr>"
  have i: "rx_inv 2 ?s"
    by (simp add: rx_inv_def rx_armed_1_def rp2040_sdio_init_def SDIO_MAX_BLOCKS_def)
  have h1: "rx_poll_dispatch False (quiet_env 5) ?s = Inr ?s \<and> rx_inv 2 ?s
      \<and> transfer_state ?s \<noteq> SDIO_IDLE
      \<and> \<not> millis (quiet_env 5) - transfer_start_time ?s > 1000"
    using i by (simp add: rx_poll_dispatch_def rx_armed_1_def rp2040_sdio_init_def quiet_env_def)
  have h2: "tx_poll_dispatch False (quiet_env 5) (tx_ready_2 False) = Inr (tx_ready_2 False)
      \<and> transfer_state (tx_ready_2 False) \<noteq> SDIO_IDLE
      \<and> \<not> millis (quiet_env 5) - transfer_start_time (tx_ready_2 False) > 1000"
    by (simp add: tx_poll_dispatch_def tx_ready_2_def tx_armed_2_def rp2040_sdio_init_def
        quiet_env_def)
  have m: "rx_mismatches (mem (quiet_env 5)) ?s 0 (Suc 0) = []"
    by (simp add: rx_mismatches_def rx_block_mismatch_def rx_block_crc_def quiet_env_def
        read_words_zero crc16_zero_words rx_armed_1_def rp2040_sdio_init_def SDIO_MAX_BLOCKS_def)
  have v: "rx_verified (mem (quiet_env 5)) (Suc 0) ?s
             = rx_armed_1\<lparr>total_blocks := 2, blocks_done := 1, blocks_checksumed := 1\<rparr>"
    using m by (simp add: rx_verified_def rx_armed_1_def rp2040_sdio_init_def)
  have b: "bytes_done True ?s = Some 512" "bytes_done True (tx_ready_2 False) = Some 0"
    by (simp_all add: bytes_done_def rx_armed_1_def tx_ready_2_def tx_armed_2_def
        rp2040_sdio_init_def)
  have c: "blocks_checksumed ?s = 0" "blocks_checksumed ?s < blocks_done ?s"
    by (simp_all add: rx_armed_1_def rp2040_sdio_init_def)
  from poll_in_flight_at_most_one_block[of False "quiet_env 5" ?s ?s 2 True] h1
       poll_in_flight_at_most_one_block[of False "quiet_env 5" "tx_ready_2 False"
          "tx_ready_2 False" 2 True] h2
  show ?thesis
    by (simp add: b c v)
qed

section \<open>Timeout of a transfer\<close>

text \<open>
  C6. A poll that finds the session not idle (after a possible manual dispatch of the
  completion handler) more than 1000 ms after it was armed stops the engine through
  \<open>rp2040_sdio_stop\<close> and returns \<open>SDIO_ERR_DATA_TIMEOUT\<close>: the DMA channel is aborted, the
  data state machine disabled, the data pins released and the session idle. Whenever a
  poll returns \<open>SDIO_ERR_DATA_TIMEOUT\<close> the engine is stopped in this sense.
\<close>

theorem poll_timeout_stops_engine:
  "(rx_poll_dispatch ndebug e s = Inr s1 \<and> transfer_state s1 \<noteq> SDIO_IDLE
      \<and> millis e - transfer_start_time s1 > 1000
    \<longrightarrow> rp2040_sdio_rx_poll ndebug want_bytes e s
          = Inr (SDIO_ERR_DATA_TIMEOUT, bytes_done want_bytes s1,
                 snd (rp2040_sdio_stop (s1\<lparr>msgs := msgs s1 @ [DbgRxPollTimeout]\<rparr>))))
   \<and> (tx_poll_dispatch ndebug e s = Inr s1 \<and> transfer_state s1 \<noteq> SDIO_IDLE
      \<and> millis e - transfer_start_time s1 > 1000
    \<longrightarrow> rp2040_sdio_tx_poll ndebug want_bytes e s
          = Inr (SDIO_ERR_DATA_TIMEOUT, bytes_done want_bytes s1,
                 snd (rp2040_sdio_stop (s1\<lparr>msgs := msgs s1 @ [DbgTxPollTimeout]\<rparr>))))
   \<and> engine_stopped (snd (rp2040_sdio_stop s2))
   \<and> (rp2040_sdio_rx_poll ndebug want_bytes e s = Inr (SDIO_ERR_DATA_TIMEOUT, b, s')
    \<longrightarrow> engine_stopped s')
   \<and> (rp2040_sdio_tx_poll ndebug want_bytes e s = Inr (SDIO_ERR_DATA_TIMEOUT, b, s')
    \<longrightarrow> engine_stopped s')"
proof (intro conjI impI)
  assume "rx_poll_dispatch ndebug e s = Inr s1 \<and> transfer_state s1 \<noteq> SDIO_IDLE
      \<and> millis e - transfer_start_time s1 > 1000"
  then show "rp2040_sdio_rx_poll ndebug want_bytes e s
          = Inr (SDIO_ERR_DATA_TIMEOUT, bytes_done want_bytes s1,
                 snd (rp2040_sdio_stop (s1\<lparr>msgs := msgs s1 @ [DbgRxPollTimeout]\<rparr>)))"
    by (simp add: rx_poll_by_dispatch rp2040_sdio_stop_def)
next
  assume "tx_poll_dispatch ndebug e s = Inr s1 \<and> transfer_state s1 \<noteq> SDIO_IDLE
      \<and> millis e - transfer_start_time s1 > 1000"
  then show "rp2040_sdio_tx_poll ndebug want_bytes e s
          = Inr (SDIO_ERR_DATA_TIMEOUT, bytes_done want_bytes s1,
                 snd (rp2040_sdio_stop (s1\<lparr>msgs := msgs s1 @ [DbgTxPollTimeout]\<rparr>)))"
    by (simp add: tx_poll_by_dispatch rp2040_sdio_stop_def)
next
  show "engine_stopped (snd (rp2040_sdio_stop s2))"
    by (simp add: engine_stopped_def rp2040_sdio_stop_def)
next
  assume "rp2040_sdio_rx_poll ndebug want_bytes e s = Inr (SDIO_ERR_DATA_TIMEOUT, b, s')"
  then show "engine_stopped s'"
    by (auto simp add: rx_poll_by_dispatch engine_stopped_def split: sum.splits if_splits)
next
  assume "rp2040_sdio_tx_poll ndebug want_bytes e s = Inr (SDIO_ERR_DATA_TIMEOUT, b, s')"
  then show "engine_stopped s'"
    by (auto simp add: tx_poll_by_dispatch engine_stopped_def split: sum.splits if_splits)
qed

theorem poll_timeout_stops_engine_witness:
  "rp2040_sdio_rx_poll False True (quiet_env 1001) rx_armed_1
     = Inr (SDIO_ERR_DATA_TIMEOUT, Some 0,
            rx_armed_1\<lparr>msgs := [DbgRxPollTimeout], dma_busy := False, data_sm_enabled := False,
                        data_pins_out := False, transfer_state := SDIO_IDLE\<rparr>)
   \<and> engine_stopped
       (rx_armed_1\<lparr>msgs := [DbgRxPollTimeout], dma_busy := False, data_sm_enabled := False,
                   data_pins_out := False, transfer_state := SDIO_IDLE\<rparr>)"
proof -
  have h: "rx_poll_dispatch False (quiet_env 1001) rx_armed_1 = Inr rx_armed_1
      \<and> transfer_state rx_armed_1 \<noteq> SDIO_IDLE
      \<and> millis (quiet_env 1001) - transfer_start_time rx_armed_1 > 1000"
    by (simp add: rx_dispatch_rx_armed_1)
       (simp add: rx_armed_1_def rp2040_sdio_init_def quiet_env_def)
  have m: "msgs rx_armed_1 = []" "bytes_done True rx_armed_1 = Some 0"
    by (simp_all add: rx_armed_1_def rp2040_sdio_init_def bytes_done_def)
  from poll_timeout_stops_engine[of False "quiet_env 1001" rx_armed_1 rx_armed_1 True
         "rx_armed_1\<lparr>msgs := msgs rx_armed_1 @ [DbgRxPollTimeout]\<rparr>"] h
  show ?thesis
    by (simp add: rp2040_sdio_stop_def m)
qed

end
